theory Spec2Isabelle
  imports
    Main
    "HOL-Library.Char_ord"
    "HOL-Library.List_Lexorder"
    "HOL-Library.Multiset"
    "HOL-Library.Sublist"
begin

section \<open>The index generator \<^verbatim>\<open>generate_index.py\<close> as HOL functions\<close>

text \<open>
  The program lists the releases of one GitHub repository page by page, keeps the assets
  that are wheel files, groups them by package name and renders static HTML pages.

  Conventions of the embedding:
  \<^item> a Python \<^verbatim>\<open>str\<close> is a \<^typ>\<open>string\<close>: the bytes of its UTF-8 encoding, where the
    ASCII characters stand for themselves and the order byte by byte is the order of
    \<^verbatim>\<open>sorted\<close> on the code points;
  \<^item> a JSON object is a record whose optional keys are \<^typ>\<open>'a option\<close> fields, typed as
    the release API documents them;
  \<^item> a \<^verbatim>\<open>dict\<close> that is iterated (\<^verbatim>\<open>packages\<close>) is an association list in insertion
    order, as Python keeps it;
  \<^item> an exception that leaves a function is a value \<open>Inl e\<close> of a sum type;
  \<^item> the network is a function from requests to responses, the requests sent are
    returned as a list; the filesystem is the list of operations asked of it;
  \<^item> what is printed on standard output is not part of the model.
\<close>

subsection \<open>String operations of Python\<close>

text \<open>\<^verbatim>\<open>sep.join(xs)\<close>.\<close>

fun join :: "string \<Rightarrow> string list \<Rightarrow> string" where
  "join sep [] = []"
| "join sep [x] = x"
| "join sep (x # y # ys) = x @ sep @ join sep (y # ys)"

text \<open>\<^verbatim>\<open>s.split(sep)\<close> for a separator of one character: every occurrence splits, and
  the result is never empty.\<close>

fun split_on :: "char \<Rightarrow> string \<Rightarrow> string list" where
  "split_on sep [] = [[]]"
| "split_on sep (c # cs) =
     (if c = sep then [] # split_on sep cs
      else (case split_on sep cs of
              [] \<Rightarrow> [[c]]
            | x # xs \<Rightarrow> (c # x) # xs))"

text \<open>\<^verbatim>\<open>s.endswith(suf)\<close>: an exact, case-sensitive comparison of the last characters.\<close>

definition endswith :: "string \<Rightarrow> string \<Rightarrow> bool" where
  "endswith s suf \<longleftrightarrow> length suf \<le> length s \<and> drop (length s - length suf) s = suf"

text \<open>\<^verbatim>\<open>str(n)\<close> for a natural number (a length or a page number).\<close>

definition digit_char :: "nat \<Rightarrow> char" where
  "digit_char d = char_of (48 + d)"

fun str_nat :: "nat \<Rightarrow> string" where
  "str_nat n = (if n < 10 then [digit_char n] else str_nat (n div 10) @ [digit_char (n mod 10)])"

text \<open>\<^verbatim>\<open>s.lower()\<close> is the case mapping of the Python runtime. Its Unicode tables are
  not part of the program, and it does not work character by character: a capital sigma
  is lowered according to its position, and one character may become two. So it is a
  parameter \<open>lower\<close> of every function that calls it, and a property that depends on it
  says what it needs of it.\<close>

subsection \<open>\<^verbatim>\<open>normalize_name\<close>\<close>

text \<open>The character class \<^verbatim>\<open>[-_.]\<close>.\<close>

definition is_sep :: "char \<Rightarrow> bool" where
  "is_sep c \<longleftrightarrow> c = CHR ''-'' \<or> c = CHR ''_'' \<or> c = CHR ''.''"

text \<open>\<^verbatim>\<open>re.sub(r'[-_.]+', '-', name)\<close>: scanning from the left, every maximal run of
  separator characters is replaced by one \<open>-\<close>.\<close>

function re_sub_seps :: "string \<Rightarrow> string" where
  "re_sub_seps [] = []"
| "re_sub_seps (c # cs) =
     (if is_sep c then CHR ''-'' # re_sub_seps (dropWhile is_sep cs)
      else c # re_sub_seps cs)"
  by pat_completeness auto
termination
  by (relation "measure length") (auto simp: less_Suc_eq_le length_dropWhile_le)

definition normalize_name :: "(string \<Rightarrow> string) \<Rightarrow> string \<Rightarrow> string" where
  "normalize_name lower name = lower (re_sub_seps name)"

subsection \<open>Data\<close>

text \<open>The exceptions that can leave the functions below: a missing key of a JSON
  object, a transport failure of \<^verbatim>\<open>urlopen\<close> (\<^verbatim>\<open>URLError\<close>, the parent class of
  \<^verbatim>\<open>HTTPError\<close>) and a response body that is not JSON.\<close>

datatype py_error = KeyError string | URLError | JSONDecodeError

text \<open>An asset and a release as the API returns them. A key that may be absent from
  the JSON object is an optional field.\<close>

record asset =
  name :: "string option"
  browser_download_url :: "string option"
  asset_size :: "int option"

record release =
  tag_name :: "string option"
  assets :: "asset list option"

text \<open>The dictionary built for every wheel file, with its four keys.\<close>

record wheel =
  filename :: string
  url :: string
  wheel_size :: int
  tag :: string

text \<open>A request is its URL and its headers. The response to a request is a page of
  releases, or one of the failures of \<^verbatim>\<open>urlopen\<close>, \<^verbatim>\<open>read\<close> and \<^verbatim>\<open>json.loads\<close>.\<close>

record request =
  req_url :: string
  req_headers :: "(string \<times> string) list"

datatype response =
    Json_body "release list"
  | Raises_HTTPError
  | Raises_URLError
  | Raises_JSONDecodeError

subsection \<open>\<^verbatim>\<open>get_all_releases\<close>\<close>

definition GITHUB_REPO :: string where
  "GITHUB_REPO = ''mjun0812/flash-attention-prebuild-wheels''"

definition API_URL :: string where
  "API_URL = ''https://api.github.com/repos/'' @ GITHUB_REPO @ ''/releases''"

text \<open>The headers: \<^verbatim>\<open>Accept\<close> always, \<^verbatim>\<open>Authorization\<close> when the environment
  variable \<^verbatim>\<open>GITHUB_TOKEN\<close> is set to a non-empty string.\<close>

definition request_headers :: "string option \<Rightarrow> (string \<times> string) list" where
  "request_headers token =
     (''Accept'', ''application/vnd.github+json'') #
     (case token of
        None \<Rightarrow> []
      | Some t \<Rightarrow> if t = [] then [] else [(''Authorization'', ''Bearer '' @ t)])"

definition page_request :: "string option \<Rightarrow> nat \<Rightarrow> request" where
  "page_request token page =
     \<lparr>req_url = API_URL @ ''?page='' @ str_nat page @ ''&per_page=100'',
      req_headers = request_headers token\<rparr>"

text \<open>The \<^verbatim>\<open>while True\<close> loop, with its variables \<^verbatim>\<open>page\<close> and \<^verbatim>\<open>releases\<close> and
  the requests sent so far. Only \<^verbatim>\<open>HTTPError\<close> is caught; it and an empty page leave the
  loop. The loop need not end (an API that never returns an empty page), so the result
  is an option and \<open>None\<close> stands for a run that does not return.\<close>

partial_function (option) fetch_pages ::
  "(request \<Rightarrow> response) \<Rightarrow> string option \<Rightarrow> nat \<Rightarrow> release list \<Rightarrow> request list \<Rightarrow>
     ((py_error + release list) \<times> request list) option" where
  "fetch_pages api token page releases sent =
     (let req = page_request token page in
      case api req of
        Raises_HTTPError \<Rightarrow> Some (Inr releases, sent @ [req])
      | Raises_URLError \<Rightarrow> Some (Inl URLError, sent @ [req])
      | Raises_JSONDecodeError \<Rightarrow> Some (Inl JSONDecodeError, sent @ [req])
      | Json_body data \<Rightarrow>
          if data = [] then Some (Inr releases, sent @ [req])
          else fetch_pages api token (page + 1) (releases @ data) (sent @ [req]))"

definition get_all_releases ::
  "(request \<Rightarrow> response) \<Rightarrow> string option \<Rightarrow>
     ((py_error + release list) \<times> request list) option" where
  "get_all_releases api token = fetch_pages api token 1 [] []"

subsection \<open>\<^verbatim>\<open>extract_wheels\<close>\<close>

text \<open>The inner loop over the assets of one release, appending to \<^verbatim>\<open>wheels\<close>.
  \<^verbatim>\<open>asset["name"]\<close> is read for every asset, \<^verbatim>\<open>asset["browser_download_url"]\<close> only
  inside the \<^verbatim>\<open>if\<close>.\<close>

fun extract_assets :: "string \<Rightarrow> asset list \<Rightarrow> wheel list \<Rightarrow> py_error + wheel list" where
  "extract_assets tg [] wheels = Inr wheels"
| "extract_assets tg (a # as) wheels =
     (case name a of
        None \<Rightarrow> Inl (KeyError ''name'')
      | Some fname \<Rightarrow>
          if endswith fname ''.whl'' then
            (case browser_download_url a of
               None \<Rightarrow> Inl (KeyError ''browser_download_url'')
             | Some u \<Rightarrow>
                 extract_assets tg as
                   (wheels @
                    [\<lparr>filename = fname, url = u,
                      wheel_size = (case asset_size a of None \<Rightarrow> 0 | Some n \<Rightarrow> n),
                      tag = tg\<rparr>]))
          else extract_assets tg as wheels)"

text \<open>The outer loop over the releases.\<close>

fun extract_releases :: "release list \<Rightarrow> wheel list \<Rightarrow> py_error + wheel list" where
  "extract_releases [] wheels = Inr wheels"
| "extract_releases (r # rs) wheels =
     (let tg = (case tag_name r of None \<Rightarrow> ''unknown'' | Some t \<Rightarrow> t) in
      case extract_assets tg (case assets r of None \<Rightarrow> [] | Some as \<Rightarrow> as) wheels of
        Inl e \<Rightarrow> Inl e
      | Inr wheels' \<Rightarrow> extract_releases rs wheels')"

definition extract_wheels :: "release list \<Rightarrow> py_error + wheel list" where
  "extract_wheels releases = extract_releases releases []"

subsection \<open>\<^verbatim>\<open>generate_root_index\<close> and \<^verbatim>\<open>generate_package_index\<close>\<close>

definition root_anchor :: "string \<Rightarrow> string" where
  \<open>root_anchor pkg = ''    <a href="'' @ pkg @ ''/">'' @ pkg @ ''</a><br/>''\<close>

definition generate_root_index :: "string list \<Rightarrow> string" where
  \<open>generate_root_index packages =
     (let links = join ''\<newline>'' (map root_anchor (sort packages)) in
      ''<!DOCTYPE html>\<newline><html>\<newline><head>\<newline>    <meta name="pypi:repository-version" content="1.0">\<newline>    <title>Simple Index</title>\<newline></head>\<newline><body>\<newline>    <h1>Simple Index</h1>\<newline>''
      @ links @ ''\<newline></body>\<newline></html>'')\<close>

definition wheel_anchor :: "wheel \<Rightarrow> string" where
  \<open>wheel_anchor w =
     ''    <a href="'' @ url w @ ''#sha256=" data-dist-info-metadata="false">'' @ filename w
     @ ''</a><br/>''\<close>

definition generate_package_index :: "string \<Rightarrow> wheel list \<Rightarrow> string" where
  \<open>generate_package_index package_name wheels =
     (let sorted_wheels = sort_key filename wheels;
          links = join ''\<newline>'' (map wheel_anchor sorted_wheels) in
      ''<!DOCTYPE html>\<newline><html>\<newline><head>\<newline>    <meta name="pypi:repository-version" content="1.0">\<newline>    <title>Links for ''
      @ package_name @ ''</title>\<newline></head>\<newline><body>\<newline>    <h1>Links for ''
      @ package_name @ ''</h1>\<newline>'' @ links @ ''\<newline></body>\<newline></html>'')\<close>

subsection \<open>The grouping loop of \<^verbatim>\<open>main\<close>\<close>

text \<open>\<^verbatim>\<open>wheel["filename"].split("-")[0]\<close>. The index \<open>0\<close> always exists, as \<open>split_on\<close>
  never returns the empty list (lemma \<open>split_on_not_Nil\<close> below).\<close>

definition name_part :: "string \<Rightarrow> string" where
  "name_part fname = hd (split_on CHR ''-'' fname)"

text \<open>One round of the loop on the dictionary \<^verbatim>\<open>packages\<close>: a new key is added at the
  end with an empty list, then the wheel is appended to the list of its key.\<close>

definition group_step ::
  "(string \<Rightarrow> string) \<Rightarrow> (string \<times> wheel list) list \<Rightarrow> wheel \<Rightarrow>
     (string \<times> wheel list) list" where
  "group_step lower packages w =
     (let normalized = normalize_name lower (name_part (filename w));
          packages' =
            (if normalized \<notin> set (map fst packages) then packages @ [(normalized, [])]
             else packages)
      in map (\<lambda>(k, ws). if k = normalized then (k, ws @ [w]) else (k, ws)) packages')"

definition group_packages ::
  "(string \<Rightarrow> string) \<Rightarrow> wheel list \<Rightarrow> (string \<times> wheel list) list" where
  "group_packages lower wheels = foldl (group_step lower) [] wheels"

subsection \<open>\<^verbatim>\<open>generate_landing_page\<close>\<close>

definition landing_item :: "string \<times> wheel list \<Rightarrow> string" where
  \<open>landing_item = (\<lambda>(pkg, wheels).
     ''<li><strong>'' @ pkg @ ''</strong>: '' @ str_nat (length wheels) @ '' wheels</li>'')\<close>

text \<open>\<^verbatim>\<open>sorted(packages.items())\<close> orders the items by their keys, which are distinct.\<close>

definition generate_landing_page :: "(string \<times> wheel list) list \<Rightarrow> nat \<Rightarrow> string" where
  \<open>generate_landing_page packages total_wheels =
     (let pkg_list = join ''\<newline>'' (map landing_item (sort_key fst packages)) in
      ''<!DOCTYPE html>\<newline>'' @
      ''<html>\<newline>'' @
      ''<head>\<newline>'' @
      ''    <meta charset="utf-8">\<newline>'' @
      ''    <meta name="viewport" content="width=device-width, initial-scale=1">\<newline>'' @
      ''    <title>Flash Attention Pre-built Wheels Index</title>\<newline>'' @
      ''    <style>\<newline>'' @
      ''        body {\<newline>'' @
      ''            font-family: -apple-system, BlinkMacSystemFont, 'Segoe UI', Roboto, Oxygen, Ubuntu, sans-serif;\<newline>'' @
      ''            max-width: 800px;\<newline>'' @
      ''            margin: 0 auto;\<newline>'' @
      ''            padding: 2rem;\<newline>'' @
      ''            line-height: 1.6;\<newline>'' @
      ''        }\<newline>'' @
      ''        h1 { color: #2d3748; }\<newline>'' @
      ''        code {\<newline>'' @
      ''            background: #f1f5f9;\<newline>'' @
      ''            padding: 0.2rem 0.4rem;\<newline>'' @
      ''            border-radius: 4px;\<newline>'' @
      ''            font-size: 0.9em;\<newline>'' @
      ''        }\<newline>'' @
      ''        pre {\<newline>'' @
      ''            background: #1e293b;\<newline>'' @
      ''            color: #e2e8f0;\<newline>'' @
      ''            padding: 1rem;\<newline>'' @
      ''            border-radius: 8px;\<newline>'' @
      ''            overflow-x: auto;\<newline>'' @
      ''        }\<newline>'' @
      ''        pre code {\<newline>'' @
      ''            background: none;\<newline>'' @
      ''            padding: 0;\<newline>'' @
      ''        }\<newline>'' @
      ''        .stats {\<newline>'' @
      ''            background: #f8fafc;\<newline>'' @
      ''            border: 1px solid #e2e8f0;\<newline>'' @
      ''            border-radius: 8px;\<newline>'' @
      ''            padding: 1rem;\<newline>'' @
      ''            margin: 1rem 0;\<newline>'' @
      ''        }\<newline>'' @
      ''        a { color: #3b82f6; }\<newline>'' @
      ''    </style>\<newline>'' @
      ''</head>\<newline>'' @
      ''<body>\<newline>'' @
      ''    <h1>'' @
      [CHR 0xF0, CHR 0x9F, CHR 0x9A, CHR 0x80] @
      '' Flash Attention Pre-built Wheels</h1>\<newline>'' @
      ''    \<newline>'' @
      ''    <p>\<newline>'' @
      ''        This is a PEP 503 compliant Python package index for pre-built \<newline>'' @
      ''        <a href="https://github.com/Dao-AILab/flash-attention">Flash Attention</a> wheels,\<newline>'' @
      ''        sourced from <a href="https://github.com/mjun0812/flash-attention-prebuild-wheels">mjun0812/flash-attention-prebuild-wheels</a>.\<newline>'' @
      ''    </p>\<newline>'' @
      ''    \<newline>'' @
      ''    <div class="stats">\<newline>'' @
      ''        <strong>'' @
      [CHR 0xF0, CHR 0x9F, CHR 0x93, CHR 0xA6] @
      '' '' @
      str_nat total_wheels @
      ''</strong> wheels available for <strong>'' @
      str_nat (length packages) @
      ''</strong> package(s)\<newline>'' @
      ''    </div>\<newline>'' @
      ''    \<newline>'' @
      ''    <h2>Installation</h2>\<newline>'' @
      ''    \<newline>'' @
      ''    <p>Install flash-attn using this index:</p>\<newline>'' @
      ''    <pre><code>pip install flash-attn --index-url https://YOUR_DOMAIN/simple/</code></pre>\<newline>'' @
      ''    \<newline>'' @
      ''    <p>Or use as an extra index (with PyPI fallback):</p>\<newline>'' @
      ''    <pre><code>pip install flash-attn --extra-index-url https://YOUR_DOMAIN/simple/</code></pre>\<newline>'' @
      ''    \<newline>'' @
      ''    <p>Install a specific version:</p>\<newline>'' @
      ''    <pre><code>pip install flash-attn==2.5.9 --index-url https://YOUR_DOMAIN/simple/</code></pre>\<newline>'' @
      ''    \<newline>'' @
      ''    <h2>Available Packages</h2>\<newline>'' @
      ''    <ul>\<newline>'' @
      ''        '' @
      pkg_list @
      ''\<newline>'' @
      ''    </ul>\<newline>'' @
      ''    \<newline>'' @
      ''    <p>\<newline>'' @
      ''        <a href="simple/">Browse the simple index '' @
      [CHR 0xE2, CHR 0x86, CHR 0x92] @
      ''</a>\<newline>'' @
      ''    </p>\<newline>'' @
      ''    \<newline>'' @
      ''    <hr>\<newline>'' @
      ''    <p style="color: #64748b; font-size: 0.875rem;">\<newline>'' @
      ''        Auto-generated from GitHub releases. \<newline>'' @
      ''        Wheels are served directly from GitHub.\<newline>'' @
      ''    </p>\<newline>'' @
      ''</body>\<newline>'' @
      ''</html>'')\<close>

subsection \<open>\<^verbatim>\<open>main\<close>\<close>

text \<open>A path is the list of the operands of \<^verbatim>\<open>/\<close> that build it. The filesystem is
  seen through the operations asked of it, in order: \<^verbatim>\<open>mkdir\<close> with its flags
  \<^verbatim>\<open>parents\<close> and \<^verbatim>\<open>exist_ok\<close>, and \<^verbatim>\<open>write_text\<close>. Every operation is taken to
  succeed.\<close>

datatype fs_op =
    Mkdir "string list" bool bool
  | Write_text "string list" string

text \<open>What a run of \<^verbatim>\<open>main\<close> leaves behind: the exit code it returns or the exception
  that ends it, the requests sent and the filesystem operations done.\<close>

record run =
  outcome :: "py_error + int"
  requests :: "request list"
  fs_ops :: "fs_op list"

text \<open>One round of the loop that writes the package indices.\<close>

definition write_package :: "string list \<Rightarrow> string \<times> wheel list \<Rightarrow> fs_op list" where
  "write_package output_dir = (\<lambda>(pkg_name, pkg_wheels).
     (let pkg_dir = output_dir @ [pkg_name];
          pkg_html = generate_package_index pkg_name pkg_wheels
      in [Mkdir pkg_dir False True, Write_text (pkg_dir @ [''index.html'']) pkg_html]))"

definition main ::
  "(string \<Rightarrow> string) \<Rightarrow> (request \<Rightarrow> response) \<Rightarrow> string option \<Rightarrow> run option" where
  "main lower api token =
     (case get_all_releases api token of
        None \<Rightarrow> None
      | Some (Inl e, sent) \<Rightarrow> Some \<lparr>outcome = Inl e, requests = sent, fs_ops = []\<rparr>
      | Some (Inr releases, sent) \<Rightarrow>
          (case extract_wheels releases of
             Inl e \<Rightarrow> Some \<lparr>outcome = Inl e, requests = sent, fs_ops = []\<rparr>
           | Inr wheels \<Rightarrow>
               if wheels = [] then Some \<lparr>outcome = Inr 1, requests = sent, fs_ops = []\<rparr>
               else
                 (let packages = group_packages lower wheels;
                      output_dir = [''public/simple''];
                      root_html = generate_root_index (map fst packages);
                      landing_html = generate_landing_page packages (length wheels)
                  in Some \<lparr>outcome = Inr 0, requests = sent,
                       fs_ops =
                         [Mkdir output_dir True True,
                          Write_text (output_dir @ [''index.html'']) root_html]
                         @ concat (map (write_package output_dir) packages)
                         @ [Write_text [''public'', ''index.html''] landing_html]\<rparr>)))"

section \<open>Notions used to state the properties\<close>

subsection \<open>Assets and wheels of a release list\<close>

text \<open>The assets of a release and its tag, with the defaults of \<^verbatim>\<open>release.get\<close>; all
  assets of a list of releases in the order of the two loops; the names among them.\<close>

definition assets_of :: "release \<Rightarrow> asset list" where
  "assets_of r = (case assets r of None \<Rightarrow> [] | Some as \<Rightarrow> as)"

definition tag_of :: "release \<Rightarrow> string" where
  "tag_of r = (case tag_name r of None \<Rightarrow> ''unknown'' | Some t \<Rightarrow> t)"

definition all_assets :: "release list \<Rightarrow> asset list" where
  "all_assets rs = concat (map assets_of rs)"

definition asset_names :: "release list \<Rightarrow> string list" where
  "asset_names rs =
     concat (map (\<lambda>a. case name a of None \<Rightarrow> [] | Some n \<Rightarrow> [n]) (all_assets rs))"

text \<open>An asset is a wheel asset when it has a name that ends in \<^verbatim>\<open>.whl\<close>. It is readable
  when it has a name and, if it is a wheel asset, a download URL: these are the keys
  that the extraction loop looks up in it.\<close>

definition is_wheel_asset :: "asset \<Rightarrow> bool" where
  "is_wheel_asset a = (case name a of None \<Rightarrow> False | Some n \<Rightarrow> endswith n ''.whl'')"

definition asset_readable :: "asset \<Rightarrow> bool" where
  "asset_readable a \<longleftrightarrow>
     name a \<noteq> None \<and> (if is_wheel_asset a then browser_download_url a \<noteq> None else True)"

text \<open>The wheel record of one asset under a tag (none for an asset that is not a wheel
  asset), and the wheel records of a release.\<close>

definition wheel_of :: "string \<Rightarrow> asset \<Rightarrow> wheel list" where
  "wheel_of tg a =
     (case name a of
        None \<Rightarrow> []
      | Some n \<Rightarrow>
          if endswith n ''.whl'' then
            (case browser_download_url a of
               None \<Rightarrow> []
             | Some u \<Rightarrow>
                 [\<lparr>filename = n, url = u,
                   wheel_size = (case asset_size a of None \<Rightarrow> 0 | Some k \<Rightarrow> k),
                   tag = tg\<rparr>])
          else [])"

definition wheels_of_release :: "release \<Rightarrow> wheel list" where
  "wheels_of_release r = concat (map (wheel_of (tag_of r)) (assets_of r))"

subsection \<open>The separators of a string\<close>

text \<open>The shape of a string: its separator characters, in order, and a mark \<open>None\<close>
  for every stretch of other characters before, between and after them. A case mapping
  keeps the shape: it leaves \<open>-\<close>, \<open>_\<close> and \<open>.\<close> where they are, and what it makes of the
  other characters is neither empty nor has a separator in it.\<close>

function sep_shape :: "string \<Rightarrow> char option list" where
  "sep_shape [] = []"
| "sep_shape (c # cs) =
     (if is_sep c then Some c # sep_shape cs
      else None # sep_shape (dropWhile (\<lambda>d. \<not> is_sep d) cs))"
  by pat_completeness auto
termination
  by (relation "measure length") (auto simp: less_Suc_eq_le length_dropWhile_le)

text \<open>A shape is normal when every separator is \<open>-\<close> and no two separators are
  neighbours: the shape of a string that \<open>re_sub_seps\<close> leaves as it is.\<close>

fun shape_normal :: "char option list \<Rightarrow> bool" where
  "shape_normal [] = True"
| "shape_normal (None # r) = shape_normal r"
| "shape_normal (Some c # r) =
     (c = CHR ''-'' \<and> (case r of Some d # r' \<Rightarrow> False | _ \<Rightarrow> shape_normal r))"

subsection \<open>Package names\<close>

text \<open>The key under which the grouping loop files a wheel.\<close>

definition package_key :: "(string \<Rightarrow> string) \<Rightarrow> wheel \<Rightarrow> string" where
  "package_key lower w = normalize_name lower (name_part (filename w))"

text \<open>The stem of a filename is the filename without its last extension, as
  \<^verbatim>\<open>Path(fname).stem\<close> gives it for a wheel file.\<close>

definition stem :: "string \<Rightarrow> string" where
  "stem fname =
     (if CHR ''.'' \<in> set fname then rev (tl (dropWhile (\<lambda>c. c \<noteq> CHR ''.'') (rev fname)))
      else fname)"

text \<open>The update of one dictionary entry in \<open>group_step\<close>, and the invariant of the
  grouping loop after the wheels \<open>ws\<close>.\<close>

definition add_wheel :: "string \<Rightarrow> wheel \<Rightarrow> string \<times> wheel list \<Rightarrow> string \<times> wheel list" where
  "add_wheel k w = (\<lambda>(k', ws). if k' = k then (k', ws @ [w]) else (k', ws))"

definition grouped ::
  "(string \<Rightarrow> string) \<Rightarrow> (string \<times> wheel list) list \<Rightarrow> wheel list \<Rightarrow> bool" where
  "grouped lower G ws \<longleftrightarrow>
     distinct (map fst G) \<and>
     set (map fst G) = package_key lower ` set ws \<and>
     list_all (\<lambda>(k, g). g = filter (\<lambda>w. package_key lower w = k) ws) G"

subsection \<open>Reading a page back\<close>

text \<open>The fixed text of the two index pages around their links.\<close>

definition META :: string where
  \<open>META = ''<meta name="pypi:repository-version" content="1.0">''\<close>

definition root_head :: string where
  \<open>root_head =
     ''<!DOCTYPE html>\<newline><html>\<newline><head>\<newline>    '' @ META
     @ ''\<newline>    <title>Simple Index</title>\<newline></head>\<newline><body>\<newline>    <h1>Simple Index</h1>\<newline>''\<close>

definition package_head :: "string \<Rightarrow> string" where
  \<open>package_head p =
     ''<!DOCTYPE html>\<newline><html>\<newline><head>\<newline>    '' @ META
     @ ''\<newline>    <title>Links for '' @ p @ ''</title>\<newline></head>\<newline><body>\<newline>    <h1>Links for ''
     @ p @ ''</h1>\<newline>''\<close>

definition page_tail :: string where
  \<open>page_tail = ''\<newline></body>\<newline></html>''\<close>

text \<open>A string is safe in HTML text and attribute values when it has none of the
  characters \<open><\<close>, \<open>>\<close> and the double quote. The pages are written without escaping,
  so only such strings can be read back from them.\<close>

definition html_safe :: "string \<Rightarrow> bool" where
  "html_safe s \<longleftrightarrow> CHR ''<'' \<notin> set s \<and> CHR ''>'' \<notin> set s \<and> CHR 0x22 \<notin> set s"

text \<open>The anchors of a page as a client reads them: at every occurrence of
  \<^verbatim>\<open><a href="\<close>, the value of \<^verbatim>\<open>href\<close> up to the closing quote, the other
  attributes up to \<open>>\<close>, and the link text up to the next \<open><\<close>.\<close>

fun anchors :: "string \<Rightarrow> (string \<times> string \<times> string) list" where
  "anchors [] = []"
| \<open>anchors (c # cs) =
     (if prefix ''<a href="'' (c # cs) then
        (let r1 = drop 9 (c # cs);
             href = takeWhile (\<lambda>x. x \<noteq> CHR 0x22) r1;
             r2 = drop 1 (dropWhile (\<lambda>x. x \<noteq> CHR 0x22) r1);
             attrs = takeWhile (\<lambda>x. x \<noteq> CHR ''>'') r2;
             r3 = drop 1 (dropWhile (\<lambda>x. x \<noteq> CHR ''>'') r2);
             label = takeWhile (\<lambda>x. x \<noteq> CHR ''<'') r3
         in (href, attrs, label) # anchors cs)
      else anchors cs)\<close>

section \<open>Example inputs\<close>

text \<open>A release with one wheel file and two other assets, and a release without any
  wheel file.\<close>

definition example_release :: release where
  "example_release =
     \<lparr>tag_name = Some ''v1.0'',
      assets = Some
       [\<lparr>name = Some ''a.whl'', browser_download_url = Some ''https://host/a.whl'',
         asset_size = Some 100\<rparr>,
        \<lparr>name = Some ''a.tar.gz'', browser_download_url = Some ''https://host/a.tar.gz'',
         asset_size = Some 7\<rparr>,
        \<lparr>name = Some ''b.WHL'', browser_download_url = Some ''https://host/b.WHL'',
         asset_size = Some 5\<rparr>]\<rparr>"

definition readme_release :: release where
  "readme_release =
     \<lparr>tag_name = Some ''v0.1'',
      assets = Some
       [\<lparr>name = Some ''readme.txt'', browser_download_url = Some ''https://host/readme.txt'',
         asset_size = Some 12\<rparr>]\<rparr>"

text \<open>An API that answers the request for page 1 with the given releases and every
  other request in one fixed way.\<close>

definition api_single_page :: "release list \<Rightarrow> response \<Rightarrow> request \<Rightarrow> response" where
  "api_single_page first_page later req =
     (if req_url req = req_url (page_request None 1) then Json_body first_page else later)"

text \<open>The case mapping on ASCII strings, where \<^verbatim>\<open>s.lower()\<close> moves the letters \<open>A\<close> to
  \<open>Z\<close> to \<open>a\<close> to \<open>z\<close> and leaves every other character: the instance of \<open>lower\<close> at
  which the examples are evaluated.\<close>

definition ascii_lower_char :: "char \<Rightarrow> char" where
  "ascii_lower_char c =
     (if CHR ''A'' \<le> c \<and> c \<le> CHR ''Z'' then char_of (of_char c + (32::nat)) else c)"

definition ascii_lower :: "string \<Rightarrow> string" where
  "ascii_lower s = map ascii_lower_char s"

text \<open>Three wheels of two packages.\<close>

definition wheel_a :: wheel where
  "wheel_a = \<lparr>filename = ''flash_attn-2.5.9-cp310.whl'', url = ''https://host/v1/fa259.whl'',
     wheel_size = 100, tag = ''v1''\<rparr>"

definition wheel_b :: wheel where
  "wheel_b = \<lparr>filename = ''torch_ext-1.0-cp310.whl'', url = ''https://host/v1/te10.whl'',
     wheel_size = 200, tag = ''v1''\<rparr>"

definition wheel_c :: wheel where
  "wheel_c = \<lparr>filename = ''Flash.Attn-2.6.0-cp311.whl'', url = ''https://host/v2/fa260.whl'',
     wheel_size = 300, tag = ''v2''\<rparr>"

section \<open>Properties\<close>

text \<open>The recursion equation of \<open>str_nat\<close> and the second equation of \<open>anchors\<close> are
  applied by name only.\<close>

declare str_nat.simps [simp del]
declare anchors.simps(2) [simp del]

subsection \<open>Normalization\<close>

text \<open>\<open>re_sub_seps\<close> does nothing to its own results, and never makes a string longer.\<close>

lemma hd_dropWhile_sep: "dropWhile is_sep cs = [] \<or> \<not> is_sep (hd (dropWhile is_sep cs))"
  using hd_dropWhile [of is_sep cs] by blast

lemma dropWhile_re_sub_seps:
  "s = [] \<or> \<not> is_sep (hd s) \<Longrightarrow> dropWhile is_sep (re_sub_seps s) = re_sub_seps s"
  by (cases s) auto

lemma re_sub_seps_idem: "re_sub_seps (re_sub_seps s) = re_sub_seps s"
proof (induction s rule: re_sub_seps.induct)
  case 1
  show ?case by simp
next
  case (2 c cs)
  show ?case
  proof (cases "is_sep c")
    case True
    have "is_sep (CHR ''-'')" by (simp add: is_sep_def)
    with True 2 show ?thesis
      using dropWhile_re_sub_seps [OF hd_dropWhile_sep, of cs] by simp
  next
    case False
    with 2 show ?thesis by simp
  qed
qed

lemma length_re_sub_seps: "length (re_sub_seps s) \<le> length s"
proof (induction s rule: re_sub_seps.induct)
  case 1
  show ?case by simp
next
  case (2 c cs)
  show ?case
  proof (cases "is_sep c")
    case True
    with 2 have "length (re_sub_seps (dropWhile is_sep cs)) \<le> length (dropWhile is_sep cs)"
      by simp
    also have "\<dots> \<le> length cs" by (rule length_dropWhile_le)
    finally show ?thesis using True by simp
  next
    case False
    with 2 show ?thesis by simp
  qed
qed

text \<open>The strings that \<open>re_sub_seps\<close> leaves as they are, are those of normal shape.\<close>

lemma re_sub_seps_other:
  "\<forall>c \<in> set u. \<not> is_sep c \<Longrightarrow> re_sub_seps (u @ v) = u @ re_sub_seps v"
  by (induction u) simp_all

lemma re_sub_seps_fixed_dropWhile:
  "re_sub_seps cs = cs \<longleftrightarrow>
   re_sub_seps (dropWhile (\<lambda>d. \<not> is_sep d) cs) = dropWhile (\<lambda>d. \<not> is_sep d) cs"
proof -
  let ?u = "takeWhile (\<lambda>d. \<not> is_sep d) cs" and ?v = "dropWhile (\<lambda>d. \<not> is_sep d) cs"
  have "\<forall>c \<in> set ?u. \<not> is_sep c" by (auto dest: set_takeWhileD)
  then have "re_sub_seps (?u @ ?v) = ?u @ re_sub_seps ?v" by (rule re_sub_seps_other)
  then have "re_sub_seps cs = ?u @ re_sub_seps ?v" by simp
  moreover have "cs = ?u @ ?v" by simp
  ultimately show ?thesis by (metis same_append_eq)
qed

lemma sep_shape_starts_Some:
  "(\<exists>d r. sep_shape cs = Some d # r) \<longleftrightarrow> cs \<noteq> [] \<and> is_sep (hd cs)"
  by (cases cs) auto

lemma re_sub_seps_fixed_iff: "re_sub_seps s = s \<longleftrightarrow> shape_normal (sep_shape s)"
proof (induction s rule: sep_shape.induct)
  case 1
  show ?case by simp
next
  case (2 c cs)
  show ?case
  proof (cases "is_sep c")
    case sep: True
    with 2 have IH: "re_sub_seps cs = cs \<longleftrightarrow> shape_normal (sep_shape cs)" by simp
    show ?thesis
    proof (cases "cs \<noteq> [] \<and> is_sep (hd cs)")
      case True
      then obtain d r where s: "sep_shape cs = Some d # r"
        using sep_shape_starts_Some [of cs] by blast
      from True obtain e es where cs: "cs = e # es" and e: "is_sep e" by (cases cs) auto
      have "length (re_sub_seps (dropWhile is_sep cs)) \<le> length (dropWhile is_sep cs)"
        by (rule length_re_sub_seps)
      also have "\<dots> \<le> length es" using cs e by (simp add: length_dropWhile_le)
      also have "\<dots> < length cs" using cs by simp
      finally have "re_sub_seps (dropWhile is_sep cs) \<noteq> cs" by auto
      with sep s show ?thesis by simp
    next
      case False
      then have d: "dropWhile is_sep cs = cs" by (cases cs) auto
      from False have "\<not> (\<exists>d r. sep_shape cs = Some d # r)"
        using sep_shape_starts_Some [of cs] by blast
      then have "(case sep_shape cs of Some d # r' \<Rightarrow> False | _ \<Rightarrow> shape_normal (sep_shape cs))
          = shape_normal (sep_shape cs)"
        by (auto split: list.splits option.splits)
      with sep d IH show ?thesis by auto
    qed
  next
    case False
    with 2 have IH: "re_sub_seps (dropWhile (\<lambda>d. \<not> is_sep d) cs) = dropWhile (\<lambda>d. \<not> is_sep d) cs
        \<longleftrightarrow> shape_normal (sep_shape (dropWhile (\<lambda>d. \<not> is_sep d) cs))"
      by simp
    with False re_sub_seps_fixed_dropWhile [of cs] show ?thesis by simp
  qed
qed

text \<open>The case mapping on ASCII strings has the two facts.\<close>

lemma of_char_ascii_lower_char:
  "(of_char (ascii_lower_char c) :: nat) =
     (if 65 \<le> (of_char c :: nat) \<and> (of_char c :: nat) \<le> 90 then of_char c + 32
      else of_char c)"
  by (simp add: ascii_lower_char_def less_eq_char_def)

lemma is_sep_code:
  "is_sep c \<longleftrightarrow>
     (of_char c :: nat) = 45 \<or> (of_char c :: nat) = 95 \<or> (of_char c :: nat) = 46"
proof -
  have eq: "\<And>d. c = d \<longleftrightarrow> (of_char c :: nat) = of_char d" by simp
  show ?thesis unfolding is_sep_def
    by (simp only: eq [of "CHR ''-''"] eq [of "CHR ''_''"] eq [of "CHR ''.''"]) simp
qed

lemma is_sep_ascii_lower_char [simp]: "is_sep (ascii_lower_char c) = is_sep c"
  by (auto simp: is_sep_code of_char_ascii_lower_char)

lemma ascii_lower_char_sep: "is_sep c \<Longrightarrow> ascii_lower_char c = c"
  by (auto simp: is_sep_def ascii_lower_char_def less_eq_char_def)

lemma ascii_lower_char_idem [simp]: "ascii_lower_char (ascii_lower_char c) = ascii_lower_char c"
proof -
  have "(of_char (ascii_lower_char (ascii_lower_char c)) :: nat) = of_char (ascii_lower_char c)"
    by (simp add: of_char_ascii_lower_char)
  then show ?thesis by simp
qed

lemma ascii_lower_idem: "ascii_lower (ascii_lower s) = ascii_lower s"
  by (simp add: ascii_lower_def)

lemma sep_shape_ascii_lower: "sep_shape (ascii_lower s) = sep_shape s"
proof (induction s rule: sep_shape.induct)
  case 1
  show ?case by (simp add: ascii_lower_def)
next
  case (2 c cs)
  show ?case
  proof (cases "is_sep c")
    case True
    with 2 show ?thesis by (simp add: ascii_lower_def ascii_lower_char_sep)
  next
    case False
    have "dropWhile (\<lambda>d. \<not> is_sep d) (map ascii_lower_char cs) =
          map ascii_lower_char (dropWhile (\<lambda>d. \<not> is_sep d) cs)"
      by (simp add: dropWhile_map comp_def)
    with False 2 show ?thesis by (simp add: ascii_lower_def)
  qed
qed

text \<open>
  Claim C8. Normalizing a package name twice gives the same result as normalizing it
  once, for every string and so for every non-empty one. This needs two facts of
  \<^verbatim>\<open>s.lower()\<close>, which hold of the case mapping of Python: a lowered string is not
  changed by lowering it again, and lowering keeps the shape of a string (it leaves
  \<open>-\<close>, \<open>_\<close> and \<open>.\<close> alone and turns no other character into one of them or into
  nothing). Nothing else is used of it. In particular it need not work character by
  character.
\<close>

theorem normalize_name_idempotent:
  assumes "\<forall>s. lower (lower s) = lower s"
      and "\<forall>s. sep_shape (lower s) = sep_shape s"
  shows "normalize_name lower (normalize_name lower x) = normalize_name lower x"
proof -
  let ?z = "re_sub_seps x"
  have "re_sub_seps ?z = ?z" by (rule re_sub_seps_idem)
  then have "shape_normal (sep_shape ?z)" by (simp only: re_sub_seps_fixed_iff)
  with assms(2) have "shape_normal (sep_shape (lower ?z))" by simp
  then have "re_sub_seps (lower ?z) = lower ?z" by (simp only: re_sub_seps_fixed_iff)
  with assms(1) show ?thesis by (simp add: normalize_name_def)
qed

theorem normalize_name_idempotent_witness:
  "(\<forall>s. ascii_lower (ascii_lower s) = ascii_lower s)
   \<and> (\<forall>s. sep_shape (ascii_lower s) = sep_shape s)
   \<and> normalize_name ascii_lower ''Foo__Bar..Baz'' = ''foo-bar-baz''
   \<and> normalize_name ascii_lower (normalize_name ascii_lower ''Foo__Bar..Baz'') =
       normalize_name ascii_lower ''Foo__Bar..Baz''"
proof -
  have a: "\<forall>s. ascii_lower (ascii_lower s) = ascii_lower s"
    by (simp add: ascii_lower_idem)
  have b: "\<forall>s. sep_shape (ascii_lower s) = sep_shape s"
    by (simp add: sep_shape_ascii_lower)
  have c: "normalize_name ascii_lower ''Foo__Bar..Baz'' = ''foo-bar-baz''"
    by code_simp
  from normalize_name_idempotent [OF a b, of "''Foo__Bar..Baz''"] a b c show ?thesis
    by (intro conjI)
qed

subsection \<open>The release fetcher\<close>

text \<open>As long as the pages are not empty the loop goes on: after \<open>n\<close> such pages it
  stands at page \<open>p + n\<close> with their releases appended in page order.\<close>

lemma fetch_pages_nonempty:
  assumes "\<forall>i<n. api (page_request token (p + i)) = Json_body (pages i) \<and> pages i \<noteq> []"
  shows "fetch_pages api token p rel sent =
         fetch_pages api token (p + n) (rel @ concat (map pages [0..<n]))
           (sent @ map (\<lambda>i. page_request token (p + i)) [0..<n])"
  using assms
proof (induction n)
  case 0
  show ?case by simp
next
  case (Suc n)
  then have IH: "fetch_pages api token p rel sent =
         fetch_pages api token (p + n) (rel @ concat (map pages [0..<n]))
           (sent @ map (\<lambda>i. page_request token (p + i)) [0..<n])"
    by simp
  from Suc.prems have step: "api (page_request token (p + n)) = Json_body (pages n)"
      "pages n \<noteq> []"
    by simp_all
  show ?case
    by (subst IH, subst fetch_pages.simps) (simp add: step Let_def)
qed

lemma requests_upto:
  "map (\<lambda>i. page_request token (Suc i)) [0..<n] @ [page_request token (Suc n)] =
   map (page_request token) [1..<n + 2]"
proof -
  have "map (\<lambda>i. page_request token (Suc i)) [0..<n] =
        map (page_request token) (map Suc [0..<n])"
    by simp
  also have "map Suc [0..<n] = [1..<Suc n]"
    by (simp add: map_Suc_upt)
  finally show ?thesis by simp
qed

lemma get_all_releases_after:
  assumes "\<forall>i<n. api (page_request token (Suc i)) = Json_body (pages i) \<and> pages i \<noteq> []"
  shows "get_all_releases api token =
         fetch_pages api token (Suc n) (concat (map pages [0..<n]))
           (map (\<lambda>i. page_request token (Suc i)) [0..<n])"
  unfolding get_all_releases_def
  using fetch_pages_nonempty [of n api token 1 pages "[]" "[]"] assms by simp

text \<open>The four ways in which a request ends the loop.\<close>

lemma fetch_pages_empty:
  "api (page_request token p) = Json_body [] \<Longrightarrow>
   fetch_pages api token p rel sent = Some (Inr rel, sent @ [page_request token p])"
  by (subst fetch_pages.simps) (simp add: Let_def)

lemma fetch_pages_HTTPError:
  "api (page_request token p) = Raises_HTTPError \<Longrightarrow>
   fetch_pages api token p rel sent = Some (Inr rel, sent @ [page_request token p])"
  by (subst fetch_pages.simps) (simp add: Let_def)

lemma fetch_pages_URLError:
  "api (page_request token p) = Raises_URLError \<Longrightarrow>
   fetch_pages api token p rel sent = Some (Inl URLError, sent @ [page_request token p])"
  by (subst fetch_pages.simps) (simp add: Let_def)

lemma fetch_pages_JSONDecodeError:
  "api (page_request token p) = Raises_JSONDecodeError \<Longrightarrow>
   fetch_pages api token p rel sent = Some (Inl JSONDecodeError, sent @ [page_request token p])"
  by (subst fetch_pages.simps) (simp add: Let_def)

text \<open>The example API: its answers to the requests for pages 1 and 2.\<close>

lemma api_single_page_1:
  "api_single_page first_page later (page_request None (Suc 0)) = Json_body first_page"
  by (simp add: api_single_page_def)

lemma api_single_page_2:
  "api_single_page first_page later (page_request None (Suc (Suc 0))) = later"
  by (simp add: api_single_page_def page_request_def str_nat.simps digit_char_def)

lemma get_all_releases_single_page:
  assumes "first_page \<noteq> []"
  shows "get_all_releases (api_single_page first_page later) None =
         fetch_pages (api_single_page first_page later) None (Suc (Suc 0)) first_page
           [page_request None (Suc 0)]"
  using get_all_releases_after [of "Suc 0" "api_single_page first_page later" None
      "\<lambda>i. first_page"] assms
  by (simp add: api_single_page_1)

text \<open>
  Claim C7. The fetcher asks for page 1, then page 2 and so on, and stops at the first
  empty page: when the pages 1 to \<open>n\<close> are not empty and page \<open>n + 1\<close> is empty, it sends
  exactly the \<open>n + 1\<close> requests for the pages 1 to \<open>n + 1\<close> and returns the releases of the
  pages 1 to \<open>n\<close> in page order. With \<open>n = 1\<close> and a first page of 100 releases these are
  2 requests and 100 releases.
\<close>

theorem get_all_releases_stops_at_empty_page:
  assumes "\<forall>i<n. api (page_request token (Suc i)) = Json_body (pages i) \<and> pages i \<noteq> []"
      and "api (page_request token (Suc n)) = Json_body []"
  shows "get_all_releases api token =
         Some (Inr (concat (map pages [0..<n])), map (page_request token) [1..<n + 2])"
proof -
  have "get_all_releases api token =
        Some (Inr (concat (map pages [0..<n])),
          map (\<lambda>i. page_request token (Suc i)) [0..<n] @ [page_request token (Suc n)])"
    by (simp only: get_all_releases_after [OF assms(1)] fetch_pages_empty [of api token "Suc n", OF assms(2)])
  then show ?thesis by (simp only: requests_upto)
qed

theorem get_all_releases_stops_at_empty_page_witness:
  "get_all_releases (api_single_page (replicate 100 example_release) (Json_body [])) None =
     Some (Inr (replicate 100 example_release), [page_request None 1, page_request None 2])
   \<and> length (replicate 100 example_release) = 100
   \<and> length [page_request None 1, page_request None 2] = 2"
proof -
  let ?api = "api_single_page (replicate 100 example_release) (Json_body [])"
  have a: "\<forall>i<1. ?api (page_request None (Suc i)) = Json_body (replicate 100 example_release)
      \<and> replicate 100 example_release \<noteq> []"
    by (simp add: api_single_page_1)
  have b: "?api (page_request None (Suc 1)) = Json_body []"
    by (simp add: api_single_page_2)
  have c: "[1..<1 + 2] = [1, 2::nat]"
    by (simp add: upt_rec)
  from get_all_releases_stops_at_empty_page [OF a b] show ?thesis
    by (simp add: c numeral_2_eq_2)
qed

text \<open>
  Claim C1, as amended. After any number of non-empty pages, an \<^verbatim>\<open>HTTPError\<close> on the
  next request ends the pagination at once and the fetcher returns the releases of the
  earlier pages, with no exception. A transport failure that is not an \<^verbatim>\<open>HTTPError\<close>
  (\<^verbatim>\<open>URLError\<close>) is not caught: the exception leaves the fetcher, and the releases of
  the earlier pages are not returned.
\<close>

theorem get_all_releases_http_error:
  assumes "\<forall>i<n. api (page_request token (Suc i)) = Json_body (pages i) \<and> pages i \<noteq> []"
  shows "(api (page_request token (Suc n)) = Raises_HTTPError \<longrightarrow>
            get_all_releases api token =
              Some (Inr (concat (map pages [0..<n])), map (page_request token) [1..<n + 2]))
       \<and> (api (page_request token (Suc n)) = Raises_URLError \<longrightarrow>
            get_all_releases api token =
              Some (Inl URLError, map (page_request token) [1..<n + 2]))"
proof (intro conjI impI)
  assume e: "api (page_request token (Suc n)) = Raises_HTTPError"
  have "get_all_releases api token =
        Some (Inr (concat (map pages [0..<n])),
          map (\<lambda>i. page_request token (Suc i)) [0..<n] @ [page_request token (Suc n)])"
    by (simp only: get_all_releases_after [OF assms] fetch_pages_HTTPError [of api token "Suc n", OF e])
  then show "get_all_releases api token =
      Some (Inr (concat (map pages [0..<n])), map (page_request token) [1..<n + 2])"
    by (simp only: requests_upto)
next
  assume e: "api (page_request token (Suc n)) = Raises_URLError"
  have "get_all_releases api token =
        Some (Inl URLError,
          map (\<lambda>i. page_request token (Suc i)) [0..<n] @ [page_request token (Suc n)])"
    by (simp only: get_all_releases_after [OF assms] fetch_pages_URLError [of api token "Suc n", OF e])
  then show "get_all_releases api token =
      Some (Inl URLError, map (page_request token) [1..<n + 2])"
    by (simp only: requests_upto)
qed

theorem get_all_releases_http_error_witness:
  "get_all_releases (api_single_page [example_release] Raises_HTTPError) None =
     Some (Inr [example_release], [page_request None 1, page_request None 2])"
proof -
  let ?api = "api_single_page [example_release] Raises_HTTPError"
  have a: "\<forall>i<1. ?api (page_request None (Suc i)) = Json_body [example_release]
      \<and> [example_release] \<noteq> []"
    by (simp add: api_single_page_1)
  have b: "?api (page_request None (Suc 1)) = Raises_HTTPError"
    by (simp add: api_single_page_2)
  have c: "[1..<1 + 2] = [1, 2::nat]"
    by (simp add: upt_rec)
  from get_all_releases_http_error [OF a] b show ?thesis
    by (simp add: c numeral_2_eq_2)
qed

theorem get_all_releases_transport_error_counterexample:
  "get_all_releases (api_single_page [example_release] Raises_URLError) None =
     Some (Inl URLError, [page_request None 1, page_request None 2])"
proof -
  have "get_all_releases (api_single_page [example_release] Raises_URLError) None =
        Some (Inl URLError, [page_request None (Suc 0), page_request None (Suc (Suc 0))])"
    by (simp add: get_all_releases_single_page fetch_pages_URLError api_single_page_2)
  then show ?thesis by (simp add: numeral_2_eq_2)
qed

subsection \<open>The wheel extractor\<close>

text \<open>The inner loop on readable assets appends the wheel record of every wheel asset;
  on a list with an unreadable asset it ends with a \<^verbatim>\<open>KeyError\<close>.\<close>

lemma extract_assets_readable:
  "list_all asset_readable as \<Longrightarrow>
   extract_assets tg as acc = Inr (acc @ concat (map (wheel_of tg) as))"
proof (induction as arbitrary: acc)
  case Nil
  show ?case by simp
next
  case (Cons a as)
  then show ?case
    by (auto simp: asset_readable_def is_wheel_asset_def wheel_of_def
        split: option.splits if_splits)
qed

lemma extract_assets_unreadable:
  "\<not> list_all asset_readable as \<Longrightarrow>
   extract_assets tg as acc = Inl (KeyError ''name'') \<or>
   extract_assets tg as acc = Inl (KeyError ''browser_download_url'')"
proof (induction as arbitrary: acc)
  case Nil
  then show ?case by simp
next
  case (Cons a as)
  show ?case
  proof (cases "asset_readable a")
    case True
    with Cons.prems have "\<not> list_all asset_readable as" by simp
    from Cons.IH [OF this] True show ?thesis
      by (auto simp: asset_readable_def is_wheel_asset_def split: option.splits if_splits)
  next
    case False
    then show ?thesis
      by (auto simp: asset_readable_def is_wheel_asset_def split: option.splits if_splits)
  qed
qed

lemma extract_releases_readable:
  "list_all asset_readable (all_assets rs) \<Longrightarrow>
   extract_releases rs acc = Inr (acc @ concat (map wheels_of_release rs))"
proof (induction rs arbitrary: acc)
  case Nil
  show ?case by simp
next
  case (Cons r rs)
  from Cons.prems have a: "list_all asset_readable (assets_of r)"
    and b: "list_all asset_readable (all_assets rs)"
    by (simp_all add: all_assets_def)
  show ?case
    using extract_assets_readable [OF a, of "tag_of r" acc] Cons.IH [OF b]
    by (simp add: Let_def assets_of_def tag_of_def wheels_of_release_def)
qed

lemma extract_releases_unreadable:
  "\<not> list_all asset_readable (all_assets rs) \<Longrightarrow>
   extract_releases rs acc = Inl (KeyError ''name'') \<or>
   extract_releases rs acc = Inl (KeyError ''browser_download_url'')"
proof (induction rs arbitrary: acc)
  case Nil
  then show ?case by (simp add: all_assets_def)
next
  case (Cons r rs)
  show ?case
  proof (cases "list_all asset_readable (assets_of r)")
    case True
    with Cons.prems have "\<not> list_all asset_readable (all_assets rs)"
      by (simp add: all_assets_def)
    from Cons.IH [OF this] show ?thesis
      using extract_assets_readable [OF True, of "tag_of r" acc]
      by (simp add: Let_def assets_of_def tag_of_def)
  next
    case False
    from extract_assets_unreadable [OF this, of "tag_of r" acc] show ?thesis
      by (auto simp: Let_def assets_of_def tag_of_def)
  qed
qed

lemma extract_wheels_Inr_iff:
  "extract_wheels rs = Inr ws \<longleftrightarrow>
     list_all asset_readable (all_assets rs) \<and> ws = concat (map wheels_of_release rs)"
proof (cases "list_all asset_readable (all_assets rs)")
  case True
  from extract_releases_readable [OF this, of "[]"] True show ?thesis
    by (auto simp: extract_wheels_def)
next
  case False
  from extract_releases_unreadable [OF this, of "[]"] False show ?thesis
    by (auto simp: extract_wheels_def)
qed

text \<open>The filenames and the number of the wheel records of readable assets.\<close>

lemma filenames_wheel_of:
  "list_all asset_readable as \<Longrightarrow>
   map filename (concat (map (wheel_of tg) as)) =
   filter (\<lambda>n. endswith n ''.whl'')
     (concat (map (\<lambda>a. case name a of None \<Rightarrow> [] | Some n \<Rightarrow> [n]) as))"
  by (induction as)
     (auto simp: asset_readable_def is_wheel_asset_def wheel_of_def split: option.splits)

lemma length_wheel_of:
  "list_all asset_readable as \<Longrightarrow>
   length (concat (map (wheel_of tg) as)) = length (filter is_wheel_asset as)"
  by (induction as)
     (auto simp: asset_readable_def is_wheel_asset_def wheel_of_def split: option.splits)

lemma filenames_wheels_of_release:
  "list_all asset_readable (all_assets rs) \<Longrightarrow>
   map filename (concat (map wheels_of_release rs)) =
   filter (\<lambda>n. endswith n ''.whl'') (asset_names rs)"
  by (induction rs)
     (simp_all add: asset_names_def all_assets_def wheels_of_release_def filenames_wheel_of)

lemma length_wheels_of_release:
  "list_all asset_readable (all_assets rs) \<Longrightarrow>
   length (concat (map wheels_of_release rs)) = length (filter is_wheel_asset (all_assets rs))"
  by (induction rs) (simp_all add: all_assets_def wheels_of_release_def length_wheel_of)

text \<open>
  Claim C4. For every release list whose assets can be read (each has a name, each
  wheel asset a download URL), the extraction returns, the filenames of the wheel
  records it returns are exactly the asset names that end in \<^verbatim>\<open>.whl\<close>, compared
  case-sensitively, in the order of the releases and of their assets, and there is one
  record for each such asset. For the assets \<^verbatim>\<open>a.whl\<close>, \<^verbatim>\<open>a.tar.gz\<close> and \<^verbatim>\<open>b.WHL\<close>
  this is the one record of \<^verbatim>\<open>a.whl\<close>.
\<close>

theorem extract_wheels_keeps_whl:
  assumes "list_all asset_readable (all_assets rs)"
  shows "\<exists>ws. extract_wheels rs = Inr ws
           \<and> map filename ws = filter (\<lambda>n. endswith n ''.whl'') (asset_names rs)
           \<and> length ws = length (filter is_wheel_asset (all_assets rs))"
  using assms
  by (simp add: extract_wheels_Inr_iff filenames_wheels_of_release length_wheels_of_release)

theorem extract_wheels_keeps_whl_witness:
  "list_all asset_readable (all_assets [example_release])
   \<and> extract_wheels [example_release] =
       Inr [\<lparr>filename = ''a.whl'', url = ''https://host/a.whl'', wheel_size = 100,
             tag = ''v1.0''\<rparr>]
   \<and> asset_names [example_release] = [''a.whl'', ''a.tar.gz'', ''b.WHL'']
   \<and> filter (\<lambda>n. endswith n ''.whl'') (asset_names [example_release]) = [''a.whl'']
   \<and> length (filter is_wheel_asset (all_assets [example_release])) = 1"
proof -
  have r: "list_all asset_readable (all_assets [example_release])"
    by (simp add: all_assets_def assets_of_def example_release_def asset_readable_def
        is_wheel_asset_def endswith_def)
  from extract_wheels_keeps_whl [OF r] obtain ws
    where ex: "extract_wheels [example_release] = Inr ws"
      and fn: "map filename ws = filter (\<lambda>n. endswith n ''.whl'') (asset_names [example_release])"
      and ln: "length ws = length (filter is_wheel_asset (all_assets [example_release]))"
    by blast
  have val: "extract_wheels [example_release] =
     Inr [\<lparr>filename = ''a.whl'', url = ''https://host/a.whl'', wheel_size = 100,
           tag = ''v1.0''\<rparr>]"
    by (simp add: extract_wheels_def example_release_def endswith_def)
  have names: "asset_names [example_release] = [''a.whl'', ''a.tar.gz'', ''b.WHL'']"
    by (simp add: asset_names_def all_assets_def assets_of_def example_release_def)
  from ex val have ws: "ws = [\<lparr>filename = ''a.whl'', url = ''https://host/a.whl'',
      wheel_size = 100, tag = ''v1.0''\<rparr>]"
    by simp
  from fn ws have f: "filter (\<lambda>n. endswith n ''.whl'') (asset_names [example_release]) =
      [''a.whl'']"
    by simp
  from ln ws have l: "length (filter is_wheel_asset (all_assets [example_release])) = 1"
    by simp
  from r val names f l show ?thesis by (intro conjI)
qed

text \<open>
  Claim C9, as amended. The extraction returns exactly when every asset has a name and
  every asset whose name ends in \<^verbatim>\<open>.whl\<close> has a download URL; it then returns the
  wheel records of the wheel assets, where a missing size is 0 and a missing tag is
  \<^verbatim>\<open>unknown\<close>. Otherwise it ends with a \<^verbatim>\<open>KeyError\<close> for \<^verbatim>\<open>name\<close> or for
  \<^verbatim>\<open>browser_download_url\<close>. An asset whose name does not end in \<^verbatim>\<open>.whl\<close> is skipped,
  with or without a download URL.
\<close>

theorem extract_wheels_total_iff:
  "(if list_all asset_readable (all_assets rs)
    then extract_wheels rs = Inr (concat (map wheels_of_release rs))
    else extract_wheels rs = Inl (KeyError ''name'') \<or>
         extract_wheels rs = Inl (KeyError ''browser_download_url''))
   \<and> (endswith n ''.whl'' \<longrightarrow>
        extract_wheels
          [\<lparr>tag_name = None,
            assets = Some [\<lparr>name = Some n, browser_download_url = Some u,
                            asset_size = None\<rparr>]\<rparr>] =
        Inr [\<lparr>filename = n, url = u, wheel_size = 0, tag = ''unknown''\<rparr>])
   \<and> (\<not> endswith n ''.whl'' \<longrightarrow>
        extract_wheels
          [\<lparr>tag_name = t,
            assets = Some [\<lparr>name = Some n, browser_download_url = None,
                            asset_size = k\<rparr>]\<rparr>] = Inr [])"
proof (intro conjI)
  show "if list_all asset_readable (all_assets rs)
    then extract_wheels rs = Inr (concat (map wheels_of_release rs))
    else extract_wheels rs = Inl (KeyError ''name'') \<or>
         extract_wheels rs = Inl (KeyError ''browser_download_url'')"
  proof (cases "list_all asset_readable (all_assets rs)")
    case True
    then show ?thesis by (simp add: extract_wheels_Inr_iff)
  next
    case False
    from extract_releases_unreadable [OF this, of "[]"] False show ?thesis
      by (simp add: extract_wheels_def)
  qed
qed (simp_all add: extract_wheels_def)

theorem extract_wheels_total_iff_witness:
  "extract_wheels
     [\<lparr>tag_name = None,
       assets = Some [\<lparr>name = Some ''a.whl'', browser_download_url = Some ''https://host/a.whl'',
                       asset_size = None\<rparr>]\<rparr>] =
     Inr [\<lparr>filename = ''a.whl'', url = ''https://host/a.whl'', wheel_size = 0,
           tag = ''unknown''\<rparr>]
   \<and> extract_wheels
     [\<lparr>tag_name = Some ''v1.0'',
       assets = Some [\<lparr>name = Some ''a.whl'', browser_download_url = None,
                       asset_size = Some 100\<rparr>]\<rparr>] =
     Inl (KeyError ''browser_download_url'')
   \<and> extract_wheels
     [\<lparr>tag_name = Some ''v1.0'',
       assets = Some [\<lparr>name = None, browser_download_url = Some ''https://host/a.whl'',
                       asset_size = Some 100\<rparr>]\<rparr>] =
     Inl (KeyError ''name'')"
proof -
  have w: "endswith ''a.whl'' ''.whl''" by (simp add: endswith_def)
  from extract_wheels_total_iff [of "[]" "''a.whl''" "''https://host/a.whl''" None None] w
  have "extract_wheels
     [\<lparr>tag_name = None,
       assets = Some [\<lparr>name = Some ''a.whl'', browser_download_url = Some ''https://host/a.whl'',
                       asset_size = None\<rparr>]\<rparr>] =
     Inr [\<lparr>filename = ''a.whl'', url = ''https://host/a.whl'', wheel_size = 0,
           tag = ''unknown''\<rparr>]"
    by simp
  then show ?thesis
    by (simp add: extract_wheels_def endswith_def)
qed

theorem extract_wheels_non_wheel_without_url_counterexample:
  "extract_wheels
     [\<lparr>tag_name = Some ''v1.0'',
       assets = Some [\<lparr>name = Some ''readme.txt'', browser_download_url = None,
                       asset_size = Some 12\<rparr>]\<rparr>] = Inr []"
  by (simp add: extract_wheels_def endswith_def)

subsection \<open>The run without wheels\<close>

lemma no_wheels_iff:
  "extract_wheels rs = Inr [] \<Longrightarrow> list_all (\<lambda>a. \<not> is_wheel_asset a) (all_assets rs)"
proof -
  assume "extract_wheels rs = Inr []"
  then have r: "list_all asset_readable (all_assets rs)"
    and e: "concat (map wheels_of_release rs) = []"
    by (simp_all add: extract_wheels_Inr_iff)
  from length_wheels_of_release [OF r] e
  have "filter is_wheel_asset (all_assets rs) = []" by simp
  then show ?thesis by (simp add: filter_empty_conv list_all_iff)
qed

text \<open>
  Claim C3. When the fetcher returns releases from which no wheel is extracted (no asset
  name ends in \<^verbatim>\<open>.whl\<close>), \<^verbatim>\<open>main\<close> returns the exit code 1 and has asked nothing of
  the filesystem: no directory is made and no file is written.
\<close>

theorem main_no_wheels:
  assumes "get_all_releases api token = Some (Inr releases, sent)"
      and "extract_wheels releases = Inr []"
  shows "main lower api token = Some \<lparr>outcome = Inr 1, requests = sent, fs_ops = []\<rparr>
       \<and> list_all (\<lambda>a. \<not> is_wheel_asset a) (all_assets releases)"
  using assms no_wheels_iff [OF assms(2)] by (simp add: main_def)

theorem main_no_wheels_witness:
  "extract_wheels [readme_release] = Inr []
   \<and> main ascii_lower (api_single_page [readme_release] (Json_body [])) None =
       Some \<lparr>outcome = Inr 1, requests = [page_request None 1, page_request None 2],
             fs_ops = []\<rparr>"
proof -
  let ?api = "api_single_page [readme_release] (Json_body [])"
  have f: "get_all_releases ?api None =
      Some (Inr [readme_release], [page_request None 1, page_request None 2])"
    by (simp add: get_all_releases_single_page fetch_pages_empty api_single_page_2
        numeral_2_eq_2)
  have e: "extract_wheels [readme_release] = Inr []"
    by (simp add: extract_wheels_def readme_release_def endswith_def)
  from main_no_wheels [OF f e, of ascii_lower] e show ?thesis by simp
qed

text \<open>Conversely, the filesystem is touched on the successful path only: a run that
  returns has asked something of the filesystem exactly when its exit code is 0.\<close>

lemma main_fs_ops_iff_success:
  assumes "main lower api token = Some r"
  shows "fs_ops r \<noteq> [] \<longleftrightarrow> outcome r = Inr 0"
proof (cases "get_all_releases api token")
  case None
  with assms show ?thesis by (simp add: main_def)
next
  case (Some res)
  obtain fetched sent where res: "res = (fetched, sent)" by (cases res)
  show ?thesis
  proof (cases fetched)
    case (Inl e)
    with assms Some res show ?thesis by (auto simp: main_def)
  next
    case (Inr releases)
    show ?thesis
    proof (cases "extract_wheels releases")
      case (Inl e)
      with assms Some res Inr show ?thesis by (auto simp: main_def)
    next
      case wheels: (Inr wheels)
      with assms Some res Inr show ?thesis
        by (cases "wheels = []") (auto simp: main_def Let_def)
    qed
  qed
qed

subsection \<open>The package grouper\<close>

text \<open>\<^verbatim>\<open>split\<close> never returns the empty list, so the index \<open>0\<close> exists; the first
  segment is the text before the first separator.\<close>

lemma split_on_not_Nil: "split_on sep s \<noteq> []"
  by (induction s) (auto split: list.splits)

lemma hd_split_on: "hd (split_on sep s) = takeWhile (\<lambda>c. c \<noteq> sep) s"
  by (induction s) (auto split: list.splits simp: split_on_not_Nil)

lemma split_on_absent: "sep \<notin> set s \<Longrightarrow> split_on sep s = [s]"
  by (induction s) auto

text \<open>One round of the grouping loop: the keys, and what it does to the lists.\<close>

lemma group_step_alt:
  "group_step lower G w =
     map (add_wheel (package_key lower w) w)
       (if package_key lower w \<in> set (map fst G) then G else G @ [(package_key lower w, [])])"
  by (simp add: group_step_def package_key_def add_wheel_def Let_def)

lemma fst_add_wheel [simp]: "fst (add_wheel k w e) = fst e"
  by (cases e) (simp add: add_wheel_def)

lemma keys_add_wheel [simp]: "map fst (map (add_wheel k w) G) = map fst G"
  by (induction G) simp_all

lemma keys_group_step:
  "map fst (group_step lower G w) =
     (if package_key lower w \<in> set (map fst G) then map fst G else map fst G @ [package_key lower w])"
  by (simp add: group_step_alt)

lemma distinct_group_step:
  "distinct (map fst G) \<Longrightarrow> distinct (map fst (group_step lower G w))"
  by (simp add: keys_group_step)

lemma add_wheel_absent:
  "k \<notin> set (map fst G) \<Longrightarrow> map (add_wheel k w) G = G"
  by (induction G) (auto simp: add_wheel_def)

lemma length_add_wheel:
  "distinct (map fst G) \<Longrightarrow> k \<in> set (map fst G) \<Longrightarrow>
   sum_list (map (length \<circ> snd) (map (add_wheel k w) G)) =
   Suc (sum_list (map (length \<circ> snd) G))"
proof (induction G)
  case Nil
  then show ?case by simp
next
  case (Cons e G)
  obtain k' ws where e: "e = (k', ws)" by (cases e)
  show ?case
  proof (cases "k' = k")
    case True
    with Cons.prems e have "k \<notin> set (map fst G)" by auto
    then have "map (add_wheel k w) G = G" by (rule add_wheel_absent)
    with True e show ?thesis by (simp add: add_wheel_def)
  next
    case False
    with Cons e show ?thesis by (auto simp: add_wheel_def)
  qed
qed

lemma mset_add_wheel:
  "distinct (map fst G) \<Longrightarrow> k \<in> set (map fst G) \<Longrightarrow>
   mset (concat (map snd (map (add_wheel k w) G))) = add_mset w (mset (concat (map snd G)))"
proof (induction G)
  case Nil
  then show ?case by simp
next
  case (Cons e G)
  obtain k' ws where e: "e = (k', ws)" by (cases e)
  show ?case
  proof (cases "k' = k")
    case True
    with Cons.prems e have "k \<notin> set (map fst G)" by auto
    then have "map (add_wheel k w) G = G" by (rule add_wheel_absent)
    with True e show ?thesis by (simp add: add_wheel_def)
  next
    case False
    with Cons e show ?thesis by (auto simp: add_wheel_def)
  qed
qed

lemma length_group_step:
  assumes "distinct (map fst G)"
  shows "sum_list (map (length \<circ> snd) (group_step lower G w)) =
         Suc (sum_list (map (length \<circ> snd) G))"
proof (cases "package_key lower w \<in> set (map fst G)")
  case True
  with length_add_wheel [OF assms, of "package_key lower w" w] show ?thesis
    by (simp add: group_step_alt)
next
  case False
  with assms have d: "distinct (map fst (G @ [(package_key lower w, [])]))" by simp
  from length_add_wheel [OF d, of "package_key lower w" w] False show ?thesis
    by (simp add: group_step_alt)
qed

lemma mset_group_step:
  assumes "distinct (map fst G)"
  shows "mset (concat (map snd (group_step lower G w))) = add_mset w (mset (concat (map snd G)))"
proof (cases "package_key lower w \<in> set (map fst G)")
  case True
  with mset_add_wheel [OF assms, of "package_key lower w" w] show ?thesis
    by (simp add: group_step_alt)
next
  case False
  with assms have d: "distinct (map fst (G @ [(package_key lower w, [])]))" by simp
  from mset_add_wheel [OF d, of "package_key lower w" w] False show ?thesis
    by (simp add: group_step_alt)
qed

text \<open>The invariant holds at the start and is kept by every round.\<close>

lemma grouped_step:
  assumes "grouped lower G ws"
  shows "grouped lower (group_step lower G w) (ws @ [w])"
proof -
  let ?k = "package_key lower w"
  from assms have d: "distinct (map fst G)"
    and ks: "set (map fst G) = package_key lower ` set ws"
    and gs: "list_all (\<lambda>(k, g). g = filter (\<lambda>w. package_key lower w = k) ws) G"
    by (simp_all add: grouped_def)
  have new: "filter (\<lambda>w'. package_key lower w' = ?k) ws = []" if nk: "?k \<notin> set (map fst G)"
  proof -
    have "package_key lower x \<noteq> ?k" if "x \<in> set ws" for x
    proof -
      from that have "package_key lower x \<in> package_key lower ` set ws" by (rule imageI)
      with ks have "package_key lower x \<in> set (map fst G)" by simp
      with nk show ?thesis by metis
    qed
    then show ?thesis by (simp add: filter_empty_conv)
  qed
  have upd: "list_all (\<lambda>(k, g). g = filter (\<lambda>w. package_key lower w = k) (ws @ [w]))
               (map (add_wheel ?k w) G')"
    if "list_all (\<lambda>(k, g). g = filter (\<lambda>w. package_key lower w = k) ws) G'" for G'
  proof -
    have "case add_wheel ?k w e of (k, g) \<Rightarrow> g = filter (\<lambda>w. package_key lower w = k) (ws @ [w])"
      if "case e of (k, g) \<Rightarrow> g = filter (\<lambda>w. package_key lower w = k) ws" for e
      using that by (cases e) (simp add: add_wheel_def)
    with that show ?thesis by (simp add: list_all_iff)
  qed
  have "list_all (\<lambda>(k, g). g = filter (\<lambda>w. package_key lower w = k) (ws @ [w])) (group_step lower G w)"
  proof (cases "?k \<in> set (map fst G)")
    case True
    with upd [OF gs] show ?thesis by (simp add: group_step_alt)
  next
    case False
    from gs new [OF False]
    have "list_all (\<lambda>(k, g). g = filter (\<lambda>w. package_key lower w = k) ws) (G @ [(?k, [])])"
      by simp
    from upd [OF this] False show ?thesis by (simp add: group_step_alt)
  qed
  moreover have "set (map fst (group_step lower G w)) = package_key lower ` set (ws @ [w])"
    using ks by (auto simp: keys_group_step)
  ultimately show ?thesis
    using distinct_group_step [OF d] by (simp add: grouped_def)
qed

lemma grouped_group_packages: "grouped lower (group_packages lower ws) ws"
proof (induction ws rule: rev_induct)
  case Nil
  show ?case by (simp add: group_packages_def grouped_def)
next
  case (snoc w ws)
  from grouped_step [OF this] show ?case by (simp add: group_packages_def)
qed

lemma distinct_group_packages: "distinct (map fst (group_packages lower ws))"
  using grouped_group_packages [of lower ws] by (simp add: grouped_def)

lemma length_group_packages:
  "sum_list (map (length \<circ> snd) (group_packages lower ws)) = length ws"
proof (induction ws rule: rev_induct)
  case Nil
  show ?case by (simp add: group_packages_def)
next
  case (snoc w ws)
  have eq: "group_packages lower (ws @ [w]) = group_step lower (group_packages lower ws) w"
    by (simp add: group_packages_def)
  have "sum_list (map (length \<circ> snd) (group_packages lower (ws @ [w]))) =
        Suc (sum_list (map (length \<circ> snd) (group_packages lower ws)))"
    by (simp only: eq length_group_step [where lower = lower, OF distinct_group_packages])
  also have "\<dots> = Suc (length ws)"
    by (simp only: snoc)
  finally show ?case unfolding length_append_singleton .
qed

lemma mset_group_packages:
  "mset (concat (map snd (group_packages lower ws))) = mset ws"
proof (induction ws rule: rev_induct)
  case Nil
  show ?case by (simp add: group_packages_def)
next
  case (snoc w ws)
  have d: "distinct (map fst (group_packages lower ws))"
    by (rule distinct_group_packages)
  from mset_group_step [where lower = lower and w = w, OF d] snoc show ?case
    by (simp add: group_packages_def)
qed

text \<open>The three example wheels, grouped lower.\<close>

lemma package_key_examples:
  "package_key ascii_lower wheel_a = ''flash-attn''" "package_key ascii_lower wheel_b = ''torch-ext''"
  "package_key ascii_lower wheel_c = ''flash-attn''"
  by code_simp+

lemma group_packages_examples:
  "group_packages ascii_lower [wheel_a, wheel_b, wheel_c] =
     [(''flash-attn'', [wheel_a, wheel_c]), (''torch-ext'', [wheel_b])]"
  by (simp add: group_packages_def group_step_alt add_wheel_def package_key_examples)

text \<open>
  Claim C10. The grouping partitions the wheel list: the keys are distinct, the list of
  a key holds exactly the wheels of that key in their input order and is not empty, the
  lengths of the lists add up to the length of the input, and the lists together hold
  the wheels of the input, each as often as the input does. So every wheel is in the
  list of its own key and in no other.
\<close>

theorem group_packages_partition:
  "distinct (map fst (group_packages lower ws))
   \<and> (\<forall>(k, g) \<in> set (group_packages lower ws). g = filter (\<lambda>w. package_key lower w = k) ws \<and> g \<noteq> [])
   \<and> sum_list (map (length \<circ> snd) (group_packages lower ws)) = length ws
   \<and> mset (concat (map snd (group_packages lower ws))) = mset ws"
proof -
  have g: "grouped lower (group_packages lower ws) ws" by (rule grouped_group_packages)
  have "g = filter (\<lambda>w. package_key lower w = k) ws \<and> g \<noteq> []"
    if "(k, g) \<in> set (group_packages lower ws)" for k g
  proof -
    from g that have eq: "g = filter (\<lambda>w. package_key lower w = k) ws"
      by (auto simp: grouped_def list_all_iff)
    from g that have "k \<in> package_key lower ` set ws"
      by (force simp: grouped_def)
    with eq show ?thesis by (auto simp: filter_empty_conv)
  qed
  with g show ?thesis
    by (auto simp: grouped_def length_group_packages mset_group_packages)
qed

theorem group_packages_partition_witness:
  "group_packages ascii_lower [wheel_a, wheel_b, wheel_c] =
     [(''flash-attn'', [wheel_a, wheel_c]), (''torch-ext'', [wheel_b])]
   \<and> filter (\<lambda>w. package_key ascii_lower w = ''flash-attn'') [wheel_a, wheel_b, wheel_c] = [wheel_a, wheel_c]
   \<and> filter (\<lambda>w. package_key ascii_lower w = ''torch-ext'') [wheel_a, wheel_b, wheel_c] = [wheel_b]
   \<and> sum_list (map (length \<circ> snd) (group_packages ascii_lower [wheel_a, wheel_b, wheel_c])) = 3"
  using group_packages_partition [of ascii_lower "[wheel_a, wheel_b, wheel_c]"]
  by (simp add: group_packages_examples package_key_examples)

text \<open>
  Claim C2, as amended. For a wheel filename without \<open>-\<close> the grouper takes the whole
  filename, with its extension \<^verbatim>\<open>.whl\<close>, as the package name before normalization, so
  the wheel is filed under the normalized filename. For every filename the name is the
  text before the first \<open>-\<close>, whatever the number of fields.
\<close>

theorem name_part_without_dash:
  "name_part fname = takeWhile (\<lambda>c. c \<noteq> CHR ''-'') fname
   \<and> (CHR ''-'' \<notin> set (filename w) \<longrightarrow>
        name_part (filename w) = filename w
      \<and> package_key lower w = normalize_name lower (filename w)
      \<and> group_packages lower [w] = [(normalize_name lower (filename w), [w])])"
proof (intro conjI impI)
  show "name_part fname = takeWhile (\<lambda>c. c \<noteq> CHR ''-'') fname"
    by (simp add: name_part_def hd_split_on)
next
  assume nd: "CHR ''-'' \<notin> set (filename w)"
  then show np: "name_part (filename w) = filename w"
    by (simp add: name_part_def split_on_absent)
  then show pk: "package_key lower w = normalize_name lower (filename w)"
    by (simp add: package_key_def)
  then show "group_packages lower [w] = [(normalize_name lower (filename w), [w])]"
    by (simp add: group_packages_def group_step_alt add_wheel_def)
qed

theorem name_part_without_dash_witness:
  "CHR ''-'' \<notin> set ''foo.whl''
   \<and> name_part ''foo.whl'' = ''foo.whl''
   \<and> group_packages ascii_lower [\<lparr>filename = ''foo.whl'', url = ''https://host/foo.whl'', wheel_size = 1,
        tag = ''v1''\<rparr>] =
      [(''foo-whl'', [\<lparr>filename = ''foo.whl'', url = ''https://host/foo.whl'', wheel_size = 1,
        tag = ''v1''\<rparr>])]"
proof -
  have n: "normalize_name ascii_lower ''foo.whl'' = ''foo-whl''"
    by code_simp
  from name_part_without_dash [where lower = ascii_lower and fname = "''foo.whl''" and w =
      "\<lparr>filename = ''foo.whl'', url = ''https://host/foo.whl'', wheel_size = 1, tag = ''v1''\<rparr>"]
  show ?thesis by (simp add: n)
qed

theorem name_part_is_not_stem_counterexample:
  "CHR ''-'' \<notin> set ''foo.whl''
   \<and> stem ''foo.whl'' = ''foo''
   \<and> name_part ''foo.whl'' \<noteq> stem ''foo.whl''
   \<and> normalize_name ascii_lower (name_part ''foo.whl'') = ''foo-whl''"
  by code_simp

subsection \<open>The index pages\<close>

text \<open>Each page is its fixed head, the links joined by newlines, and the fixed tail.\<close>

lemma generate_root_index_frame:
  "generate_root_index pkgs =
     root_head @ join ''\<newline>'' (map root_anchor (sort pkgs)) @ page_tail"
  by (simp add: generate_root_index_def root_head_def page_tail_def META_def Let_def)

lemma generate_package_index_frame:
  "generate_package_index p ws =
     package_head p @ join ''\<newline>'' (map wheel_anchor (sort_key filename ws)) @ page_tail"
  by (simp add: generate_package_index_def package_head_def page_tail_def META_def Let_def)

lemma sublist_META_root: "sublist META (generate_root_index pkgs)"
proof -
  have "generate_root_index pkgs =
      ''<!DOCTYPE html>\<newline><html>\<newline><head>\<newline>    '' @ META @
      (''\<newline>    <title>Simple Index</title>\<newline></head>\<newline><body>\<newline>    <h1>Simple Index</h1>\<newline>''
       @ join ''\<newline>'' (map root_anchor (sort pkgs)) @ page_tail)"
    by (simp add: generate_root_index_frame root_head_def)
  then show ?thesis by (simp only: sublist_appendI)
qed

lemma sublist_META_package: "sublist META (generate_package_index p ws)"
proof -
  have "generate_package_index p ws =
      ''<!DOCTYPE html>\<newline><html>\<newline><head>\<newline>    '' @ META @
      (''\<newline>    <title>Links for '' @ p
       @ ''</title>\<newline></head>\<newline><body>\<newline>    <h1>Links for '' @ p @ ''</h1>\<newline>''
       @ join ''\<newline>'' (map wheel_anchor (sort_key filename ws)) @ page_tail)"
    by (simp add: generate_package_index_frame package_head_def)
  then show ?thesis by (simp only: sublist_appendI)
qed

text \<open>Reading anchors: text without \<open><\<close> holds none, and neither do the head and the
  tail of the pages.\<close>

lemma anchors_other: "c \<noteq> CHR ''<'' \<Longrightarrow> anchors (c # cs) = anchors cs"
  by (simp add: anchors.simps(2))

lemma anchors_tag: "d \<noteq> CHR ''a'' \<Longrightarrow> anchors (CHR ''<'' # d # cs) = anchors (d # cs)"
  by (simp add: anchors.simps(2))

lemma anchors_skip: "CHR ''<'' \<notin> set s \<Longrightarrow> anchors (s @ t) = anchors t"
  by (induction s) (auto simp: anchors_other)

lemma anchors_page_tail: "anchors page_tail = []"
  by (simp add: page_tail_def anchors_other anchors_tag)

lemma anchors_root_head: "anchors (root_head @ t) = anchors t"
  by (simp add: root_head_def META_def anchors_other anchors_tag)

lemma anchors_package_head:
  assumes "html_safe p"
  shows "anchors (package_head p @ t) = anchors t"
proof -
  from assms have p: "CHR ''<'' \<notin> set p" by (simp add: html_safe_def)
  have a: "anchors (p @ u) = anchors u" for u
    using p by (rule anchors_skip)
  show ?thesis
    by (simp add: package_head_def META_def anchors_other anchors_tag a)
qed

text \<open>One link of each page, read back.\<close>

lemma takeWhile_until:
  "c \<notin> set s \<Longrightarrow> takeWhile (\<lambda>x. x \<noteq> c) (s @ c # t) = s"
  by (induction s) auto

lemma dropWhile_until:
  "c \<notin> set s \<Longrightarrow> dropWhile (\<lambda>x. x \<noteq> c) (s @ c # t) = c # t"
  by (induction s) auto

lemma anchors_root_anchor:
  assumes "html_safe n"
  shows "anchors (root_anchor n @ t) = (n @ ''/'', [], n) # anchors t"
proof -
  from assms have lt: "CHR ''<'' \<notin> set n" and q: "CHR 0x22 \<notin> set n"
    by (simp_all add: html_safe_def)
  have skip: "anchors (n @ u) = anchors u" for u
    using lt by (rule anchors_skip)
  have href: "takeWhile (\<lambda>x. x \<noteq> CHR 0x22) (n @ CHR ''/'' # CHR 0x22 # u) = n @ ''/''" for u
    using takeWhile_until [of "CHR 0x22" "n @ ''/''" u] q by simp
  have rest: "dropWhile (\<lambda>x. x \<noteq> CHR 0x22) (n @ CHR ''/'' # CHR 0x22 # u) = CHR 0x22 # u"
    for u
    using dropWhile_until [of "CHR 0x22" "n @ ''/''" u] q by simp
  have inner: "takeWhile (\<lambda>x. x \<noteq> CHR ''<'') (n @ CHR ''<'' # u) = n" for u
    using lt by (rule takeWhile_until)
  show ?thesis
    by (simp add: root_anchor_def anchors_other anchors_tag anchors.simps(2) [of "CHR ''<''"]
        href rest inner skip Let_def)
qed

lemma anchors_wheel_anchor:
  assumes "html_safe (url w)" and "html_safe (filename w)"
  shows \<open>anchors (wheel_anchor w @ t) =
         (url w @ ''#sha256='', '' data-dist-info-metadata="false"'', filename w) # anchors t\<close>
proof -
  from assms have lt: "CHR ''<'' \<notin> set (url w)" "CHR ''<'' \<notin> set (filename w)"
    and q: "CHR 0x22 \<notin> set (url w)"
    by (simp_all add: html_safe_def)
  have skip: "anchors (url w @ u) = anchors u" "anchors (filename w @ u) = anchors u" for u
    using lt by (simp_all add: anchors_skip)
  have href: "takeWhile (\<lambda>x. x \<noteq> CHR 0x22) (url w @ ''#sha256='' @ CHR 0x22 # u) =
      url w @ ''#sha256=''" for u
    using takeWhile_until [of "CHR 0x22" "url w @ ''#sha256=''" u] q by simp
  have rest: "dropWhile (\<lambda>x. x \<noteq> CHR 0x22) (url w @ ''#sha256='' @ CHR 0x22 # u) =
      CHR 0x22 # u" for u
    using dropWhile_until [of "CHR 0x22" "url w @ ''#sha256=''" u] q by simp
  have inner: "takeWhile (\<lambda>x. x \<noteq> CHR ''<'') (filename w @ CHR ''<'' # u) = filename w"
    for u
    using lt(2) by (rule takeWhile_until)
  show ?thesis
    using href rest
    by (simp add: wheel_anchor_def anchors_other anchors_tag anchors.simps(2) [of "CHR ''<''"]
        inner skip Let_def)
qed

lemma anchors_join:
  assumes "\<And>x t. x \<in> set xs \<Longrightarrow> anchors (render x @ t) = entry x # anchors t"
  shows "anchors (join ''\<newline>'' (map render xs) @ t) = map entry xs @ anchors t"
  using assms
proof (induction xs rule: induct_list012)
  case 1
  show ?case by simp
next
  case (2 x)
  then show ?case by simp
next
  case (3 x y zs)
  have "anchors (join ''\<newline>'' (map render (y # zs)) @ t) = map entry (y # zs) @ anchors t"
    using 3 by simp
  then show ?case
    using "3.prems" [of x] by (simp add: anchors_other)
qed

lemma anchors_root_index:
  assumes "list_all html_safe pkgs"
  shows "anchors (generate_root_index pkgs) = map (\<lambda>p. (p @ ''/'', [], p)) (sort pkgs)"
proof -
  have "anchors (root_anchor x @ t) = (x @ ''/'', [], x) # anchors t"
    if "x \<in> set (sort pkgs)" for x t
    using that assms by (intro anchors_root_anchor) (simp add: list_all_iff)
  from anchors_join [of "sort pkgs" root_anchor "\<lambda>p. (p @ ''/'', [], p)" page_tail, OF this]
  show ?thesis
    by (simp add: generate_root_index_frame anchors_root_head anchors_page_tail)
qed

lemma anchors_package_index:
  assumes "html_safe p" and "list_all (\<lambda>w. html_safe (url w) \<and> html_safe (filename w)) ws"
  shows \<open>anchors (generate_package_index p ws) =
         map (\<lambda>w. (url w @ ''#sha256='', '' data-dist-info-metadata="false"'', filename w))
           (sort_key filename ws)\<close>
proof -
  have \<open>anchors (wheel_anchor x @ t) =
        (url x @ ''#sha256='', '' data-dist-info-metadata="false"'', filename x) # anchors t\<close>
    if "x \<in> set (sort_key filename ws)" for x t
    using that assms(2) by (intro anchors_wheel_anchor) (simp_all add: list_all_iff)
  from anchors_join [of "sort_key filename ws" wheel_anchor _ page_tail, OF this]
  show ?thesis
    by (simp add: generate_package_index_frame anchors_package_head [OF assms(1)]
        anchors_page_tail)
qed

text \<open>Sorting: the result depends on the wheels only up to their order when the
  filenames are distinct, and the filenames always come out as the sorted filenames.\<close>

lemma sort_permutation:
  fixes xs :: "string list"
  shows "mset ys = mset xs \<Longrightarrow> sort ys = sort xs"
  by (rule properties_for_sort) simp_all

lemma map_insort_key: "map f (insort_key f x xs) = insort (f x) (map f xs)"
  by (induction xs) simp_all

lemma filenames_sort_key: "map filename (sort_key filename ws) = sort (map filename ws)"
  by (induction ws) (simp_all add: map_insort_key)

lemma filter_eq_singleton:
  "distinct zs \<Longrightarrow> k \<in> set zs \<Longrightarrow> filter (\<lambda>x. x = k) zs = [k]"
proof (induction zs)
  case Nil
  then show ?case by simp
next
  case (Cons z zs)
  show ?case
  proof (cases "z = k")
    case True
    with Cons.prems have "k \<notin> set zs" by simp
    then have "filter (\<lambda>x. x = k) zs = []" by (auto simp: filter_empty_conv)
    with True show ?thesis by simp
  next
    case False
    with Cons show ?thesis by simp
  qed
qed

lemma sort_key_permutation:
  assumes "mset ys = mset xs" and "distinct (map f xs)"
  shows "sort_key f ys = sort_key f xs"
proof (rule properties_for_sort_key)
  show "mset (sort_key f xs) = mset ys" using assms(1) by simp
  show "sorted (map f (sort_key f xs))" by simp
  fix k assume "k \<in> set (sort_key f xs)"
  then have kx: "k \<in> set xs" by simp
  from assms have inj: "inj_on f (set xs)" and dx: "distinct xs"
    by (simp_all add: distinct_map)
  from assms(1) have sy: "set ys = set xs" by (rule mset_eq_setD)
  from assms(1) dx have dy: "distinct ys" by (metis mset_eq_imp_distinct_iff)
  have "filter (\<lambda>x. f k = f x) zs = [k]" if "distinct zs" "set zs = set xs" for zs
  proof -
    have "filter (\<lambda>x. f k = f x) zs = filter (\<lambda>x. x = k) zs"
      using inj kx that(2) by (intro filter_cong) (auto dest: inj_onD)
    also have "\<dots> = [k]"
      using that kx by (simp add: filter_eq_singleton)
    finally show ?thesis .
  qed
  from this [of "sort_key f xs"] this [of ys] dx dy sy
  show "filter (\<lambda>x. f k = f x) (sort_key f xs) = filter (\<lambda>x. f k = f x) ys"
    by simp
qed

text \<open>
  Claim C5. For distinct package names (the keys of a dictionary), the root index is the
  fixed head with the meta tag \<^verbatim>\<open><meta name="pypi:repository-version" content="1.0">\<close>,
  then one line \<^verbatim>\<open><a href="NAME/">NAME</a><br/>\<close> for every name, in lexicographic
  order, then the fixed tail. The sorted names are the given names, each once. The page
  is the same for every order in which the names are given. A client that reads the
  anchors of the page finds exactly one for every name, with the name followed by \<open>/\<close>
  as its \<^verbatim>\<open>href\<close> and the name as its text, in sorted order; names are written
  without escaping, so this is stated for names free of \<open><\<close>, \<open>>\<close> and the double quote.
\<close>

theorem generate_root_index_anchors:
  assumes "distinct pkgs"
  shows \<open>generate_root_index pkgs =
           root_head
           @ join ''\<newline>''
               (map (\<lambda>p. ''    <a href="'' @ p @ ''/">'' @ p @ ''</a><br/>'') (sort pkgs))
           @ page_tail
       \<and> sorted (sort pkgs) \<and> distinct (sort pkgs) \<and> set (sort pkgs) = set pkgs
       \<and> sublist META root_head
       \<and> sublist META (generate_root_index pkgs)
       \<and> (list_all html_safe pkgs \<longrightarrow>
            anchors (generate_root_index pkgs) = map (\<lambda>p. (p @ ''/'', [], p)) (sort pkgs))
       \<and> (\<forall>pkgs'. mset pkgs' = mset pkgs \<longrightarrow>
            generate_root_index pkgs' = generate_root_index pkgs)\<close>
proof (intro conjI impI allI)
  have "root_anchor = (\<lambda>p. ''    <a href='' @ [CHR 0x22] @ p @ ''/'' @ [CHR 0x22] @ ''>'' @ p
      @ ''</a><br/>'')"
    by (rule ext) (simp add: root_anchor_def)
  then show \<open>generate_root_index pkgs =
           root_head
           @ join ''\<newline>''
               (map (\<lambda>p. ''    <a href="'' @ p @ ''/">'' @ p @ ''</a><br/>'') (sort pkgs))
           @ page_tail\<close>
    by (simp add: generate_root_index_frame)
  show "distinct (sort pkgs)" using assms by simp
  show "sublist META root_head"
    unfolding root_head_def by (rule sublist_appendI)
  show "sublist META (generate_root_index pkgs)" by (rule sublist_META_root)
  show "anchors (generate_root_index pkgs) = map (\<lambda>p. (p @ ''/'', [], p)) (sort pkgs)"
    if "list_all html_safe pkgs"
    using that by (rule anchors_root_index)
  show "generate_root_index pkgs' = generate_root_index pkgs"
    if "mset pkgs' = mset pkgs" for pkgs'
    using sort_permutation [OF that] by (simp add: generate_root_index_frame)
qed simp_all

theorem generate_root_index_anchors_witness:
  "distinct [''torch-ext'', ''flash-attn'']
   \<and> anchors (generate_root_index [''torch-ext'', ''flash-attn'']) =
       [(''flash-attn/'', [], ''flash-attn''), (''torch-ext/'', [], ''torch-ext'')]
   \<and> generate_root_index [''flash-attn'', ''torch-ext''] =
       generate_root_index [''torch-ext'', ''flash-attn'']"
proof -
  have d: "distinct [''torch-ext'', ''flash-attn'']" by simp
  have s: "list_all html_safe [''torch-ext'', ''flash-attn'']"
    by (simp add: html_safe_def)
  have m: "mset [''flash-attn'', ''torch-ext''] = mset [''torch-ext'', ''flash-attn'']"
    by simp
  have o: "sort [''torch-ext'', ''flash-attn''] = [''flash-attn'', ''torch-ext'']"
    by simp
  note t = generate_root_index_anchors [OF d]
  from t have "list_all html_safe [''torch-ext'', ''flash-attn''] \<longrightarrow>
      anchors (generate_root_index [''torch-ext'', ''flash-attn'']) =
      map (\<lambda>p. (p @ ''/'', [], p)) (sort [''torch-ext'', ''flash-attn''])"
    by (elim conjE) assumption
  with s have a: "anchors (generate_root_index [''torch-ext'', ''flash-attn'']) =
      map (\<lambda>p. (p @ ''/'', [], p)) (sort [''torch-ext'', ''flash-attn''])"
    by (rule rev_mp)
  from t have "\<forall>pkgs'. mset pkgs' = mset [''torch-ext'', ''flash-attn''] \<longrightarrow>
      generate_root_index pkgs' = generate_root_index [''torch-ext'', ''flash-attn'']"
    by (elim conjE) assumption
  with m have b: "generate_root_index [''flash-attn'', ''torch-ext''] =
      generate_root_index [''torch-ext'', ''flash-attn'']"
    by blast
  have c: "map (\<lambda>p. (p @ ''/'', [], p)) [''flash-attn'', ''torch-ext''] =
      [(''flash-attn/'', [], ''flash-attn''), (''torch-ext/'', [], ''torch-ext'')]"
    by simp
  from a have "anchors (generate_root_index [''torch-ext'', ''flash-attn'']) =
      [(''flash-attn/'', [], ''flash-attn''), (''torch-ext/'', [], ''torch-ext'')]"
    by (simp only: o c)
  with d b show ?thesis by (intro conjI)
qed

text \<open>
  Claim C6. The package index is the fixed head for the package name, then one line
  \<^verbatim>\<open><a href="URL#sha256=" data-dist-info-metadata="false">FILENAME</a><br/>\<close> for every
  wheel, then the fixed tail. The lines are those of the given wheels, each once, and
  their filenames ascend; the sequence of filenames is the same for every order in
  which the wheels are given, and so is the whole page when the filenames are distinct
  (wheels of equal filename keep their input order). A client that reads the anchors of
  the page finds exactly one for every wheel, with the download URL followed by
  \<^verbatim>\<open>#sha256=\<close> as its \<^verbatim>\<open>href\<close>, the attribute \<^verbatim>\<open>data-dist-info-metadata="false"\<close> and
  the filename as its text; again this is stated for strings free of \<open><\<close>, \<open>>\<close> and the
  double quote.
\<close>

theorem generate_package_index_anchors:
  \<open>generate_package_index p ws =
      package_head p
      @ join ''\<newline>''
          (map (\<lambda>w. ''    <a href="'' @ url w @ ''#sha256=" data-dist-info-metadata="false">''
                     @ filename w @ ''</a><br/>'')
             (sort_key filename ws))
      @ page_tail
   \<and> mset (sort_key filename ws) = mset ws
   \<and> sorted (map filename (sort_key filename ws))
   \<and> (html_safe p \<and> list_all (\<lambda>w. html_safe (url w) \<and> html_safe (filename w)) ws \<longrightarrow>
        anchors (generate_package_index p ws) =
        map (\<lambda>w. (url w @ ''#sha256='', '' data-dist-info-metadata="false"'', filename w))
          (sort_key filename ws))
   \<and> (\<forall>ws'. mset ws' = mset ws \<longrightarrow>
        map filename (sort_key filename ws') = map filename (sort_key filename ws))
   \<and> (\<forall>ws'. mset ws' = mset ws \<and> distinct (map filename ws) \<longrightarrow>
        generate_package_index p ws' = generate_package_index p ws)\<close>
proof (intro conjI impI allI)
  have \<open>wheel_anchor =
      (\<lambda>w. ''    <a href="'' @ url w @ ''#sha256=" data-dist-info-metadata="false">''
            @ filename w @ ''</a><br/>'')\<close>
    by (rule ext) (simp add: wheel_anchor_def)
  then show \<open>generate_package_index p ws =
      package_head p
      @ join ''\<newline>''
          (map (\<lambda>w. ''    <a href="'' @ url w @ ''#sha256=" data-dist-info-metadata="false">''
                     @ filename w @ ''</a><br/>'')
             (sort_key filename ws))
      @ page_tail\<close>
    by (simp add: generate_package_index_frame)
  show \<open>anchors (generate_package_index p ws) =
        map (\<lambda>w. (url w @ ''#sha256='', '' data-dist-info-metadata="false"'', filename w))
          (sort_key filename ws)\<close>
    if "html_safe p \<and> list_all (\<lambda>w. html_safe (url w) \<and> html_safe (filename w)) ws"
    using that anchors_package_index [of p ws] by simp
  show "map filename (sort_key filename ws') = map filename (sort_key filename ws)"
    if "mset ws' = mset ws" for ws'
  proof -
    from that have "mset (map filename ws') = mset (map filename ws)" by simp
    then have "sort (map filename ws') = sort (map filename ws)" by (rule sort_permutation)
    then show ?thesis by (simp only: filenames_sort_key)
  qed
  show "generate_package_index p ws' = generate_package_index p ws"
    if "mset ws' = mset ws \<and> distinct (map filename ws)" for ws'
    using that sort_key_permutation [of ws' ws filename]
    by (simp add: generate_package_index_frame)
qed simp_all

theorem generate_package_index_anchors_witness:
  \<open>html_safe ''flash-attn''
   \<and> anchors (generate_package_index ''flash-attn'' [wheel_a, wheel_c]) =
       [(''https://host/v2/fa260.whl#sha256='', '' data-dist-info-metadata="false"'',
         ''Flash.Attn-2.6.0-cp311.whl''),
        (''https://host/v1/fa259.whl#sha256='', '' data-dist-info-metadata="false"'',
         ''flash_attn-2.5.9-cp310.whl'')]
   \<and> generate_package_index ''flash-attn'' [wheel_c, wheel_a] =
       generate_package_index ''flash-attn'' [wheel_a, wheel_c]\<close>
proof -
  have s: "html_safe ''flash-attn''"
    "list_all (\<lambda>w. html_safe (url w) \<and> html_safe (filename w)) [wheel_a, wheel_c]"
    by (simp_all add: html_safe_def wheel_a_def wheel_c_def)
  have m: "mset [wheel_c, wheel_a] = mset [wheel_a, wheel_c]"
    by simp
  have d: "distinct (map filename [wheel_a, wheel_c])"
    by (simp add: wheel_a_def wheel_c_def)
  have o: "sort_key filename [wheel_a, wheel_c] = [wheel_c, wheel_a]"
    by (simp add: wheel_a_def wheel_c_def)
  note t = generate_package_index_anchors [of "''flash-attn''" "[wheel_a, wheel_c]"]
  from t have \<open>html_safe ''flash-attn'' \<and>
      list_all (\<lambda>w. html_safe (url w) \<and> html_safe (filename w)) [wheel_a, wheel_c] \<longrightarrow>
      anchors (generate_package_index ''flash-attn'' [wheel_a, wheel_c]) =
      map (\<lambda>w. (url w @ ''#sha256='', '' data-dist-info-metadata="false"'', filename w))
        (sort_key filename [wheel_a, wheel_c])\<close>
    by (elim conjE) assumption
  with s have a: \<open>anchors (generate_package_index ''flash-attn'' [wheel_a, wheel_c]) =
      map (\<lambda>w. (url w @ ''#sha256='', '' data-dist-info-metadata="false"'', filename w))
        (sort_key filename [wheel_a, wheel_c])\<close>
    by blast
  from t have "\<forall>ws'. mset ws' = mset [wheel_a, wheel_c] \<and>
      distinct (map filename [wheel_a, wheel_c]) \<longrightarrow>
      generate_package_index ''flash-attn'' ws' =
      generate_package_index ''flash-attn'' [wheel_a, wheel_c]"
    by (elim conjE) assumption
  with m d have b: "generate_package_index ''flash-attn'' [wheel_c, wheel_a] =
      generate_package_index ''flash-attn'' [wheel_a, wheel_c]"
    by blast
  have c: \<open>map (\<lambda>w. (url w @ ''#sha256='', '' data-dist-info-metadata="false"'', filename w))
        [wheel_c, wheel_a] =
       [(''https://host/v2/fa260.whl#sha256='', '' data-dist-info-metadata="false"'',
         ''Flash.Attn-2.6.0-cp311.whl''),
        (''https://host/v1/fa259.whl#sha256='', '' data-dist-info-metadata="false"'',
         ''flash_attn-2.5.9-cp310.whl'')]\<close>
    by (simp add: wheel_a_def wheel_c_def)
  from a have \<open>anchors (generate_package_index ''flash-attn'' [wheel_a, wheel_c]) =
       [(''https://host/v2/fa260.whl#sha256='', '' data-dist-info-metadata="false"'',
         ''Flash.Attn-2.6.0-cp311.whl''),
        (''https://host/v1/fa259.whl#sha256='', '' data-dist-info-metadata="false"'',
         ''flash_attn-2.5.9-cp310.whl'')]\<close>
    by (simp only: o c)
  with s(1) b show ?thesis by (intro conjI)
qed

end
